theory Spec2Isabelle
  imports Main
begin

section \<open>JavaScript values\<close>

text \<open>
  The page (\<^verbatim>\<open>src/app/page.tsx\<close>) works on values produced by \<^verbatim>\<open>JSON.parse\<close>. TypeScript's
  types are erased when the page runs, so the model keeps the values as JavaScript has
  them: a \<open>json\<close> value, and \<open>json option\<close> where a property read may yield
  \<^verbatim>\<open>undefined\<close> (\<open>None\<close>). A number is kept as the text JavaScript prints it with,
  which is \<^verbatim>\<open>0\<close> exactly when the number is zero; nothing else about numbers is used.
\<close>

datatype json =
    JNull
  | JBool bool
  | JNum string
  | JStr string
  | JArr "json list"
  | JObj "(string \<times> json) list"

text \<open>
  What the engine provides and the repository does not define is a parameter of the
  model: \<^verbatim>\<open>JSON.parse\<close> (\<open>Inl m\<close> when it throws a SyntaxError with message \<open>m\<close>) and
  the wording of the TypeError thrown when a property is read from \<^verbatim>\<open>null\<close> or
  \<^verbatim>\<open>undefined\<close>. Every general theorem below holds for every such runtime.
\<close>

record runtime =
  JSON_parse :: "string \<Rightarrow> string + json"
  TypeError_message :: "string \<Rightarrow> string"

text \<open>A thrown value: \<^verbatim>\<open>error instanceof Error\<close>, \<^verbatim>\<open>error.message\<close>, and the
  \<^verbatim>\<open>status\<close> property when the value has one.\<close>

datatype thrown = Thrown (is_Error: bool) (message: string) (status_prop: "nat option")

definition new_Error :: "string \<Rightarrow> thrown" where
  "new_Error m = Thrown True m None"

definition type_error :: "runtime \<Rightarrow> string \<Rightarrow> thrown" where
  "type_error rt p = new_Error (TypeError_message rt p)"

text \<open>JavaScript truthiness, as \<^verbatim>\<open>&&\<close>, \<^verbatim>\<open>||\<close> and \<^verbatim>\<open>!\<close> read it.\<close>

fun truthy :: "json \<Rightarrow> bool" where
  "truthy JNull = False"
| "truthy (JBool b) = b"
| "truthy (JNum n) = (n \<noteq> ''0'')"
| "truthy (JStr s) = (s \<noteq> [])"
| "truthy (JArr xs) = True"
| "truthy (JObj kvs) = True"

definition truthy_string :: "string option \<Rightarrow> bool" where
  "truthy_string e = (case e of None \<Rightarrow> False | Some s \<Rightarrow> s \<noteq> [])"

text \<open>\<^verbatim>\<open>v || d\<close> for a property value \<open>v\<close> that may be undefined.\<close>

definition js_or :: "json option \<Rightarrow> json \<Rightarrow> json" where
  "js_or v d = (case v of None \<Rightarrow> d | Some x \<Rightarrow> if truthy x then x else d)"

text \<open>
  Reading the property \<open>p\<close> of a value: a TypeError on \<^verbatim>\<open>null\<close> and \<^verbatim>\<open>undefined\<close>,
  the own property of an object (which lists each of its properties once),
  \<^verbatim>\<open>undefined\<close> on anything else. The page reads only
  the names \<^verbatim>\<open>event\<close>, \<^verbatim>\<open>data\<close>, \<^verbatim>\<open>delta\<close>, \<^verbatim>\<open>text\<close>, \<^verbatim>\<open>developerNote\<close> and
  \<^verbatim>\<open>marketingNote\<close>, none of which a string, a number, a boolean or an array inherits.
\<close>

definition get_prop :: "runtime \<Rightarrow> json option \<Rightarrow> string \<Rightarrow> thrown + json option" where
  "get_prop rt v p =
     (case v of
        None \<Rightarrow> Inl (type_error rt p)
      | Some JNull \<Rightarrow> Inl (type_error rt p)
      | Some (JObj kvs) \<Rightarrow> Inr (map_of kvs p)
      | Some _ \<Rightarrow> Inr None)"

fun join_comma :: "string list \<Rightarrow> string" where
  "join_comma [] = []"
| "join_comma [s] = s"
| "join_comma (s # t # ss) = s @ '','' @ join_comma (t # ss)"

text \<open>The string a value becomes when \<^verbatim>\<open>+\<close> appends it to a string, or when
  \<^verbatim>\<open>JSON.parse\<close> is given it.\<close>

fun ToString :: "json \<Rightarrow> string" where
  "ToString JNull = ''null''"
| "ToString (JBool b) = (if b then ''true'' else ''false'')"
| "ToString (JNum n) = n"
| "ToString (JStr s) = s"
| "ToString (JArr xs) =
     join_comma (map (\<lambda>x. case x of JNull \<Rightarrow> [] | _ \<Rightarrow> ToString x) xs)"
| "ToString (JObj kvs) = ''[object Object]''"

definition js_string :: "json option \<Rightarrow> string" where
  "js_string v = (case v of None \<Rightarrow> ''undefined'' | Some x \<Rightarrow> ToString x)"

subsection \<open>Strings\<close>

definition startsWith :: "string \<Rightarrow> string \<Rightarrow> bool" where
  "startsWith s p = (take (length p) s = p)"

definition endsWith :: "string \<Rightarrow> string \<Rightarrow> bool" where
  "endsWith s p = (length p \<le> length s \<and> drop (length s - length p) s = p)"

fun includes_str :: "string \<Rightarrow> string \<Rightarrow> bool" where
  "includes_str [] p = (p = [])"
| "includes_str (c # cs) p = (startsWith (c # cs) p \<or> includes_str cs p)"

definition nl :: char where
  "nl = CHR 0x0A"

text \<open>\<^verbatim>\<open>s.split('\n\n')\<close>: the pieces between the occurrences of two newlines, found from
  the left without overlap. \<open>cur\<close> is the piece being read.\<close>

fun split_frames :: "string \<Rightarrow> string \<Rightarrow> string list" where
  "split_frames cur [] = [cur]"
| "split_frames cur [a] = [cur @ [a]]"
| "split_frames cur (a # b # rest) =
     (if a = nl \<and> b = nl then cur # split_frames [] rest
      else split_frames (cur @ [a]) (b # rest))"

text \<open>A status code in a template literal.\<close>

fun decimal :: "nat \<Rightarrow> string" where
  "decimal n =
     (if n < 10 then [''0123456789'' ! n]
      else decimal (n div 10) @ [''0123456789'' ! (n mod 10)])"

declare decimal.simps [simp del]

section \<open>The page's state\<close>

text \<open>
  \<^verbatim>\<open>NotesCache\<close>, \<^verbatim>\<open>NotesState\<close> and the accumulator are objects used as dictionaries,
  modelled as maps from the diff id; the ids are ordinary property names.
\<close>

record cache_entry =
  timestamp :: int
  data :: json

record note_entry =
  loading :: bool
  error :: "string option"
  data :: json

type_synonym notes_state = "string \<rightharpoonup> note_entry"

type_synonym notes_cache = "string \<rightharpoonup> cache_entry"

text \<open>
  The two pieces of React state that note generation writes. A state value read inside
  a function is the value of the render that created the function (the \<^verbatim>\<open>const\<close>
  bound by \<^verbatim>\<open>useState\<close> in that render); \<^verbatim>\<open>setNotes(prev => ...)\<close> and
  \<^verbatim>\<open>setJsonAccumulator(prev => ...)\<close> apply their function to the live state. So the
  functions below take the render's values (\<open>notes0\<close>, \<open>acc0\<close>) apart from the live
  state they update.
\<close>

record react_state =
  notes_of :: notes_state
  jsonAccumulator :: "string \<rightharpoonup> string"

definition setNotes :: "string \<Rightarrow> note_entry \<Rightarrow> react_state \<Rightarrow> react_state" where
  "setNotes diffId e st = st\<lparr>notes_of := (notes_of st)(diffId \<mapsto> e)\<rparr>"

definition setJsonAccumulator :: "string \<Rightarrow> string \<Rightarrow> react_state \<Rightarrow> react_state" where
  "setJsonAccumulator diffId s st = st\<lparr>jsonAccumulator := (jsonAccumulator st)(diffId \<mapsto> s)\<rparr>"

section \<open>The reconstructor: \<^verbatim>\<open>generateNotes\<close>, lines 251 to 320\<close>

text \<open>Lines 271 to 277: the brace repair.\<close>

definition fixedJson :: "string \<Rightarrow> string" where
  "fixedJson updatedJson =
     (let fixed = (if \<not> endsWith updatedJson ''}'' then updatedJson @ ''}'' else updatedJson)
      in if \<not> startsWith fixed ''{'' then ''{'' @ fixed else fixed)"

text \<open>
  Lines 269 to 296: the speculative parse. A SyntaxError of \<^verbatim>\<open>JSON.parse\<close> is caught at
  line 293 and leaves the state as it is. The text given to \<^verbatim>\<open>JSON.parse\<close> ends with a
  closing brace, so what it returns is an object and reading \<^verbatim>\<open>developerNote\<close> and
  \<^verbatim>\<open>marketingNote\<close> from it cannot fail; for a \<open>JSON_parse\<close> that returned \<^verbatim>\<open>null\<close> there
  the model leaves the state as it is too.
\<close>

definition partial_parse :: "runtime \<Rightarrow> string \<Rightarrow> string \<Rightarrow> react_state \<Rightarrow> react_state" where
  "partial_parse rt diffId updatedJson st =
     (case JSON_parse rt (fixedJson updatedJson) of
        Inl m \<Rightarrow> st
      | Inr parsedData \<Rightarrow>
          (case get_prop rt (Some parsedData) ''developerNote'' of
             Inl t \<Rightarrow> st
           | Inr dn \<Rightarrow>
               (case get_prop rt (Some parsedData) ''marketingNote'' of
                  Inl t \<Rightarrow> st
                | Inr mn \<Rightarrow>
                    setNotes diffId
                      \<lparr>loading = True, error = None,
                       data = JObj [(''developerNote'', js_or dn (JStr [])),
                                    (''marketingNote'', js_or mn (JStr []))]\<rparr> st)))"

definition looks_complete :: "string \<Rightarrow> bool" where
  \<open>looks_complete updatedJson =
     (includes_str updatedJson ''}'' \<and>
      includes_str updatedJson ''"developerNote"'' \<and>
      includes_str updatedJson ''"marketingNote"'')\<close>

text \<open>
  Lines 256 to 301: a delta event. \<open>acc0\<close> is \<^verbatim>\<open>jsonAccumulator\<close> as line 259 reads
  it: the value of the render that created this \<^verbatim>\<open>generateNotes\<close>. A TypeError from
  \<^verbatim>\<open>eventData.data.delta\<close> is caught at line 298.
\<close>

definition handle_delta ::
  "runtime \<Rightarrow> (string \<rightharpoonup> string) \<Rightarrow> string \<Rightarrow> json \<Rightarrow> react_state \<Rightarrow> react_state" where
  "handle_delta rt acc0 diffId eventData st =
     (let currentJson = (case acc0 diffId of None \<Rightarrow> [] | Some s \<Rightarrow> s) in
      case get_prop rt (Some eventData) ''data'' of
        Inl t \<Rightarrow> st
      | Inr d \<Rightarrow>
          (case get_prop rt d ''delta'' of
             Inl t \<Rightarrow> st
           | Inr delta \<Rightarrow>
               let updatedJson = currentJson @ js_string delta;
                   st1 = setJsonAccumulator diffId updatedJson st
               in if looks_complete updatedJson
                  then partial_parse rt diffId updatedJson st1
                  else st1))"

text \<open>Lines 304 to 318: a done event. A failure is logged at line 316 and nothing else
  happens.\<close>

definition handle_done :: "runtime \<Rightarrow> string \<Rightarrow> json \<Rightarrow> react_state \<Rightarrow> react_state" where
  "handle_done rt diffId eventData st =
     (case get_prop rt (Some eventData) ''data'' of
        Inl t \<Rightarrow> st
      | Inr d \<Rightarrow>
          (case get_prop rt d ''text'' of
             Inl t \<Rightarrow> st
           | Inr txt \<Rightarrow>
               (case JSON_parse rt (js_string txt) of
                  Inl m \<Rightarrow> st
                | Inr completedData \<Rightarrow>
                    setNotes diffId \<lparr>loading = False, error = None, data = completedData\<rparr> st)))"

text \<open>
  Lines 252 to 319: one element of \<^verbatim>\<open>lines\<close>. The envelope is parsed outside the inner
  \<^verbatim>\<open>try\<close> blocks, so a SyntaxError there, or the TypeError of reading \<^verbatim>\<open>event\<close> from
  \<^verbatim>\<open>null\<close>, leaves the loops (\<open>Inl\<close>) for the handler of line 322.
\<close>

definition handle_line ::
  "runtime \<Rightarrow> (string \<rightharpoonup> string) \<Rightarrow> string \<Rightarrow> string \<Rightarrow> react_state \<Rightarrow> thrown + react_state" where
  "handle_line rt acc0 diffId line st =
     (if startsWith line ''data: '' then
        (case JSON_parse rt (drop 6 line) of
           Inl m \<Rightarrow> Inl (new_Error m)
         | Inr eventData \<Rightarrow>
             (case get_prop rt (Some eventData) ''event'' of
                Inl t \<Rightarrow> Inl t
              | Inr ev \<Rightarrow>
                  let st1 = (if ev = Some (JStr ''response.output_text.delta'')
                             then handle_delta rt acc0 diffId eventData st else st);
                      st2 = (if ev = Some (JStr ''response.output_text.done'')
                             then handle_done rt diffId eventData st1 else st1)
                  in Inr st2))
      else Inr st)"

text \<open>Lines 251 to 320: the \<^verbatim>\<open>for\<close> loop over the complete lines of a chunk. When a line
  throws, the lines before it have been handled.\<close>

fun process_lines ::
  "runtime \<Rightarrow> (string \<rightharpoonup> string) \<Rightarrow> string \<Rightarrow> string list \<Rightarrow> react_state
     \<Rightarrow> thrown option \<times> react_state" where
  "process_lines rt acc0 diffId [] st = (None, st)"
| "process_lines rt acc0 diffId (line # rest) st =
     (case handle_line rt acc0 diffId line st of
        Inl t \<Rightarrow> (Some t, st)
      | Inr st' \<Rightarrow> process_lines rt acc0 diffId rest st')"

text \<open>The text payload a line carries when it is a done event: what line 306 gives
  \<^verbatim>\<open>JSON.parse\<close>.\<close>

definition done_event_text :: "runtime \<Rightarrow> string \<Rightarrow> string option" where
  "done_event_text rt line =
     (if startsWith line ''data: '' then
        (case JSON_parse rt (drop 6 line) of
           Inl m \<Rightarrow> None
         | Inr eventData \<Rightarrow>
             (case get_prop rt (Some eventData) ''event'' of
                Inl t \<Rightarrow> None
              | Inr ev \<Rightarrow>
                  if ev = Some (JStr ''response.output_text.done'') then
                    (case get_prop rt (Some eventData) ''data'' of
                       Inl t \<Rightarrow> None
                     | Inr d \<Rightarrow>
                         (case get_prop rt d ''text'' of
                            Inl t \<Rightarrow> None
                          | Inr txt \<Rightarrow> Some (js_string txt)))
                  else None))
      else None)"

section \<open>\<^verbatim>\<open>generateNotes\<close>, one await at a time\<close>

text \<open>Line 198, and line 177: \<^verbatim>\<open>notes[id]?.data && !notes[id]?.loading && !notes[id]?.error\<close>.\<close>

definition cached :: "notes_state \<Rightarrow> string \<Rightarrow> bool" where
  "cached notes0 diffId =
     (case notes0 diffId of
        None \<Rightarrow> False
      | Some e \<Rightarrow> truthy (data e) \<and> \<not> loading e \<and> \<not> truthy_string (error e))"

text \<open>Line 183, and the \<^verbatim>\<open>disabled\<close> attribute of line 409: \<^verbatim>\<open>notes[id]?.loading\<close>.\<close>

definition is_loading :: "notes_state \<Rightarrow> string \<Rightarrow> bool" where
  "is_loading notes0 diffId = (case notes0 diffId of None \<Rightarrow> False | Some e \<Rightarrow> loading e)"

definition empty_notes :: json where
  "empty_notes = JObj [(''developerNote'', JStr []), (''marketingNote'', JStr [])]"

text \<open>
  A call of \<^verbatim>\<open>generateNotes\<close> that has reached an \<^verbatim>\<open>await\<close>: its \<^verbatim>\<open>diffId\<close>, the
  \<^verbatim>\<open>jsonAccumulator\<close> of its render, and where it waits (for \<^verbatim>\<open>fetch\<close>, or for
  \<^verbatim>\<open>reader.read()\<close> with \<^verbatim>\<open>partialData\<close> held over).
\<close>

datatype phase = AwaitFetch | AwaitRead string

record task =
  task_id :: string
  task_acc :: "string \<rightharpoonup> string"
  phase :: phase

text \<open>Lines 196 to 216, up to the \<^verbatim>\<open>await fetch\<close>. \<open>None\<close> is the early return of line
  200.\<close>

definition generateNotes_begin ::
  "notes_state \<Rightarrow> (string \<rightharpoonup> string) \<Rightarrow> string \<Rightarrow> react_state \<Rightarrow> (task \<times> react_state) option" where
  "generateNotes_begin notes0 acc0 diffId st =
     (if cached notes0 diffId then None
      else Some (\<lparr>task_id = diffId, task_acc = acc0, phase = AwaitFetch\<rparr>,
                 setNotes diffId \<lparr>loading = True, error = None, data = empty_notes\<rparr>
                   (setJsonAccumulator diffId [] st)))"

text \<open>Lines 322 to 332: the \<^verbatim>\<open>catch\<close> of the whole attempt.\<close>

definition catch_error :: "string \<Rightarrow> thrown \<Rightarrow> react_state \<Rightarrow> react_state" where
  "catch_error diffId t st =
     setNotes diffId
       \<lparr>loading = False,
        error = Some (if is_Error t then message t else ''Failed to generate notes''),
        data = JNull\<rparr> st"

text \<open>
  What an \<^verbatim>\<open>await\<close> of the attempt can come back with: \<^verbatim>\<open>fetch\<close> rejects, or resolves
  with a status and with or without a body; \<^verbatim>\<open>reader.read()\<close> gives a chunk (already
  decoded), reports the end of the stream, or rejects.
\<close>

datatype await_result =
    FetchRejects thrown
  | FetchResolves nat bool
  | ReadChunk string
  | ReadDone
  | ReadRejects thrown

definition response_ok :: "nat \<Rightarrow> bool" where
  "response_ok status = (200 \<le> status \<and> status \<le> 299)"

text \<open>Lines 216 to 332 from one \<^verbatim>\<open>await\<close> to the next. The outer \<open>None\<close>: this result
  cannot arrive in this phase. The inner \<open>None\<close>: the call has returned.\<close>

definition resume ::
  "runtime \<Rightarrow> task \<Rightarrow> await_result \<Rightarrow> react_state \<Rightarrow> (task option \<times> react_state) option" where
  "resume rt tk r st =
     (case phase tk of
        AwaitFetch \<Rightarrow>
          (case r of
             FetchRejects t \<Rightarrow> Some (None, catch_error (task_id tk) t st)
           | FetchResolves status has_body \<Rightarrow>
               if \<not> response_ok status then
                 Some (None, catch_error (task_id tk)
                               (new_Error (''HTTP error! status: '' @ decimal status)) st)
               else if \<not> has_body then
                 Some (None, catch_error (task_id tk) (new_Error ''No response body'') st)
               else Some (Some (tk\<lparr>phase := AwaitRead []\<rparr>), st)
           | _ \<Rightarrow> None)
      | AwaitRead partialData \<Rightarrow>
          (case r of
             ReadChunk chunk \<Rightarrow>
               (let lines = split_frames [] (partialData @ chunk) in
                case process_lines rt (task_acc tk) (task_id tk) (butlast lines) st of
                  (Some t, st') \<Rightarrow> Some (None, catch_error (task_id tk) t st')
                | (None, st') \<Rightarrow> Some (Some (tk\<lparr>phase := AwaitRead (last lines)\<rparr>), st'))
           | ReadDone \<Rightarrow> Some (None, st)
           | ReadRejects t \<Rightarrow> Some (None, catch_error (task_id tk) t st)
           | _ \<Rightarrow> None))"

text \<open>Lines 240 to 321: the \<^verbatim>\<open>while\<close> loop given the chunks of the stream one after
  another, until the attempt returns or the chunks are used up.\<close>

fun read_stream ::
  "runtime \<Rightarrow> task \<Rightarrow> string list \<Rightarrow> react_state \<Rightarrow> (task option \<times> react_state) option" where
  "read_stream rt tk [] st = Some (Some tk, st)"
| "read_stream rt tk (chunk # rest) st =
     (case resume rt tk (ReadChunk chunk) st of
        None \<Rightarrow> None
      | Some (None, st') \<Rightarrow> Some (None, st')
      | Some (Some tk', st') \<Rightarrow> read_stream rt tk' rest st')"

section \<open>The cache: \<^verbatim>\<open>saveNotesToCache\<close> and \<^verbatim>\<open>loadNotesFromCache\<close>\<close>

text \<open>
  The item \<^verbatim>\<open>diffDigestNotes\<close> of \<^verbatim>\<open>localStorage\<close>: absent, a text that line 98 cannot
  read as a cache (the \<^verbatim>\<open>catch\<close> of line 117), or a stored cache. \<^verbatim>\<open>JSON.stringify\<close>
  followed by \<^verbatim>\<open>JSON.parse\<close> is taken to give back the cache it was given.
\<close>

datatype storage = NoItem | Unreadable | Stored notes_cache

definition CACHE_EXPIRATION :: int where
  "CACHE_EXPIRATION = 24 * 60 * 60 * 1000"

text \<open>Lines 67 to 86. \<open>now\<close> is \<^verbatim>\<open>Date.now()\<close>; \<open>writable\<close> is false when
  \<^verbatim>\<open>localStorage.setItem\<close> throws, which line 82 catches.\<close>

definition cacheData :: "int \<Rightarrow> notes_state \<Rightarrow> notes_cache" where
  "cacheData now notes0 =
     (\<lambda>diffId. case notes0 diffId of
        None \<Rightarrow> None
      | Some noteData \<Rightarrow>
          if \<not> loading noteData \<and> \<not> truthy_string (error noteData) \<and> truthy (data noteData)
          then Some \<lparr>timestamp = now, cache_entry.data = data noteData\<rparr>
          else None)"

definition saveNotesToCache :: "int \<Rightarrow> bool \<Rightarrow> notes_state \<Rightarrow> storage \<Rightarrow> storage" where
  "saveNotesToCache now writable notes0 sto =
     (if writable then Stored (cacheData now notes0) else sto)"

text \<open>Lines 94 to 121.\<close>

definition loadedNotes :: "int \<Rightarrow> notes_cache \<Rightarrow> notes_state" where
  "loadedNotes now cachedNotes =
     (\<lambda>diffId. case cachedNotes diffId of
        None \<Rightarrow> None
      | Some cacheEntry \<Rightarrow>
          if now - timestamp cacheEntry < CACHE_EXPIRATION
          then Some \<lparr>loading = False, error = None, data = cache_entry.data cacheEntry\<rparr>
          else None)"

definition loadNotesFromCache :: "int \<Rightarrow> storage \<Rightarrow> react_state \<Rightarrow> react_state" where
  "loadNotesFromCache now sto st =
     (case sto of
        Stored cachedNotes \<Rightarrow> st\<lparr>notes_of := loadedNotes now cachedNotes\<rparr>
      | _ \<Rightarrow> st)"

section \<open>The batch: \<^verbatim>\<open>generateAllNotes\<close>\<close>

record diff_item =
  item_id :: string
  description :: string
  diff :: string
  url :: string

text \<open>
  A call of \<^verbatim>\<open>generateAllNotes\<close> between two awaits: the \<^verbatim>\<open>notes\<close> and
  \<^verbatim>\<open>jsonAccumulator\<close> of the render that created it (its \<^verbatim>\<open>generateNotes\<close> is the one of
  that render too), the items the \<^verbatim>\<open>for\<close> loop has not reached, and what it waits for:
  the \<^verbatim>\<open>generateNotes\<close> of line 187 or the delay of line 189.
\<close>

datatype batch_wait = Generating task | Delay

record batch =
  batch_notes :: notes_state
  batch_acc :: "string \<rightharpoonup> string"
  batch_rest :: "diff_item list"
  batch_wait :: batch_wait

text \<open>Lines 175 to 190: the loop from its current item to its next \<^verbatim>\<open>await\<close>; \<open>None\<close>
  when it runs off the end of the list.\<close>

fun batch_loop ::
  "notes_state \<Rightarrow> (string \<rightharpoonup> string) \<Rightarrow> diff_item list \<Rightarrow> react_state
     \<Rightarrow> (batch_wait \<times> diff_item list) option \<times> react_state" where
  "batch_loop notes0 acc0 [] st = (None, st)"
| "batch_loop notes0 acc0 (d # ds) st =
     (if cached notes0 (item_id d) then batch_loop notes0 acc0 ds st
      else if is_loading notes0 (item_id d) then batch_loop notes0 acc0 ds st
      else (case generateNotes_begin notes0 acc0 (item_id d) st of
              None \<Rightarrow> (Some (Delay, ds), st)
            | Some (tk, st') \<Rightarrow> (Some (Generating tk, ds), st')))"

section \<open>The page as a transition system\<close>

text \<open>
  The component \<^verbatim>\<open>Home\<close>: its React state, the stored cache, and the asynchronous calls
  that are between two awaits: the calls of \<^verbatim>\<open>generateNotes\<close> started from an item's
  button (\<open>manual\<close>) and the call of \<^verbatim>\<open>generateAllNotes\<close>, if any.
\<close>

record page =
  react :: react_state
  processingAll :: bool
  diffs :: "diff_item list"
  localStorage :: storage
  manual :: "task list"
  batch :: "batch option"

text \<open>
  What can happen next. An event handler is the one of the latest render, so a click
  reads the live state; an asynchronous call that resumes reads the state of the render
  that created it.
\<close>

datatype action =
    LoadCache int
  | SaveCache int bool
  | FetchedPage nat "diff_item list"
  | ClickGenerate diff_item
  | ClickGenerateAll
  | Resume nat await_result
  | BatchResume await_result
  | DelayElapsed

definition initial_page :: "storage \<Rightarrow> page" where
  "initial_page sto =
     \<lparr>react = \<lparr>notes_of = Map.empty, jsonAccumulator = Map.empty\<rparr>,
      processingAll = False, diffs = [], localStorage = sto, manual = [], batch = None\<rparr>"

text \<open>Line 408 with the \<^verbatim>\<open>disabled\<close> attribute of line 409.\<close>

definition click_generate :: "diff_item \<Rightarrow> page \<Rightarrow> page option" where
  "click_generate d p =
     (if d \<in> set (diffs p) \<and> \<not> is_loading (notes_of (react p)) (item_id d) then
        (case generateNotes_begin (notes_of (react p)) (jsonAccumulator (react p))
                (item_id d) (react p) of
           None \<Rightarrow> Some p
         | Some (tk, st') \<Rightarrow> Some (p\<lparr>react := st', manual := manual p @ [tk]\<rparr>))
      else None)"

text \<open>Lines 168 to 194, from the click to the first \<^verbatim>\<open>await\<close>.\<close>

definition generateAllNotes :: "page \<Rightarrow> page" where
  "generateAllNotes p =
     (if processingAll p \<or> diffs p = [] then p
      else
        (case batch_loop (notes_of (react p)) (jsonAccumulator (react p)) (diffs p) (react p) of
           (None, st') \<Rightarrow> p\<lparr>react := st', processingAll := False\<rparr>
         | (Some (w, ds), st') \<Rightarrow>
             p\<lparr>react := st', processingAll := True,
               batch := Some \<lparr>batch_notes = notes_of (react p),
                               batch_acc = jsonAccumulator (react p),
                               batch_rest = ds, batch_wait = w\<rparr>\<rparr>))"

definition resume_manual :: "runtime \<Rightarrow> nat \<Rightarrow> await_result \<Rightarrow> page \<Rightarrow> page option" where
  "resume_manual rt i r p =
     (if i < length (manual p) then
        (case resume rt (manual p ! i) r (react p) of
           None \<Rightarrow> None
         | Some (None, st') \<Rightarrow>
             Some (p\<lparr>react := st', manual := take i (manual p) @ drop (Suc i) (manual p)\<rparr>)
         | Some (Some tk', st') \<Rightarrow> Some (p\<lparr>react := st', manual := (manual p)[i := tk']\<rparr>))
      else None)"

definition resume_batch :: "runtime \<Rightarrow> await_result \<Rightarrow> page \<Rightarrow> page option" where
  "resume_batch rt r p =
     (case batch p of
        None \<Rightarrow> None
      | Some b \<Rightarrow>
          (case batch_wait b of
             Delay \<Rightarrow> None
           | Generating tk \<Rightarrow>
               (case resume rt tk r (react p) of
                  None \<Rightarrow> None
                | Some (None, st') \<Rightarrow>
                    Some (p\<lparr>react := st', batch := Some (b\<lparr>batch_wait := Delay\<rparr>)\<rparr>)
                | Some (Some tk', st') \<Rightarrow>
                    Some (p\<lparr>react := st', batch := Some (b\<lparr>batch_wait := Generating tk'\<rparr>)\<rparr>))))"

text \<open>Line 189 has passed: the loop goes on with the state of its own render.\<close>

definition delay_elapsed :: "page \<Rightarrow> page option" where
  "delay_elapsed p =
     (case batch p of
        None \<Rightarrow> None
      | Some b \<Rightarrow>
          (case batch_wait b of
             Generating tk \<Rightarrow> None
           | Delay \<Rightarrow>
               (case batch_loop (batch_notes b) (batch_acc b) (batch_rest b) (react p) of
                  (None, st') \<Rightarrow> Some (p\<lparr>react := st', processingAll := False, batch := None\<rparr>)
                | (Some (w, ds), st') \<Rightarrow>
                    Some (p\<lparr>react := st',
                            batch := Some (b\<lparr>batch_rest := ds, batch_wait := w\<rparr>)\<rparr>))))"

definition step :: "runtime \<Rightarrow> action \<Rightarrow> page \<Rightarrow> page option" where
  "step rt a p =
     (case a of
        LoadCache now \<Rightarrow> Some (p\<lparr>react := loadNotesFromCache now (localStorage p) (react p)\<rparr>)
      | SaveCache now writable \<Rightarrow>
          Some (p\<lparr>localStorage :=
                    saveNotesToCache now writable (notes_of (react p)) (localStorage p)\<rparr>)
      | FetchedPage n ds \<Rightarrow> Some (p\<lparr>diffs := (if n = 1 then ds else diffs p @ ds)\<rparr>)
      | ClickGenerate d \<Rightarrow> click_generate d p
      | ClickGenerateAll \<Rightarrow> Some (generateAllNotes p)
      | Resume i r \<Rightarrow> resume_manual rt i r p
      | BatchResume r \<Rightarrow> resume_batch rt r p
      | DelayElapsed \<Rightarrow> delay_elapsed p)"

fun run :: "runtime \<Rightarrow> action list \<Rightarrow> page \<Rightarrow> page option" where
  "run rt [] p = Some p"
| "run rt (a # as) p = (case step rt a p of None \<Rightarrow> None | Some p' \<Rightarrow> run rt as p')"

text \<open>The diff ids of the calls of \<^verbatim>\<open>generateNotes\<close> that have started and not
  returned.\<close>

definition in_flight :: "page \<Rightarrow> string list" where
  "in_flight p =
     map task_id (manual p) @
     (case batch p of
        None \<Rightarrow> []
      | Some b \<Rightarrow> (case batch_wait b of Generating tk \<Rightarrow> [task_id tk] | Delay \<Rightarrow> []))"

section \<open>The endpoint: \<^verbatim>\<open>POST\<close> of the generate-notes route\<close>

text \<open>
  What \<^verbatim>\<open>const { id, description, diff } = await request.json()\<close> binds: a field is
  absent (\<^verbatim>\<open>undefined\<close>), \<^verbatim>\<open>null\<close>, or present. The page sends strings, and the model
  takes a present field to be a string. \<^verbatim>\<open>request.json()\<close> may also reject, or give
  \<^verbatim>\<open>null\<close>, which cannot be destructured.
\<close>

datatype 'a field = Undefined | Null | Present 'a

datatype request_json =
    JsonRejects thrown
  | JsonNull
  | JsonBody "string field" "string field" "string field"

text \<open>\<^verbatim>\<open>x == null\<close>.\<close>

definition is_nullish :: "'a field \<Rightarrow> bool" where
  "is_nullish f = (case f of Present x \<Rightarrow> False | _ \<Rightarrow> True)"

text \<open>Line 13: \<^verbatim>\<open>diff.length > 100 ? diff.substring(0, 100) + '...' : diff\<close>, evaluated
  for the log before any check.\<close>

definition diffPreview :: "runtime \<Rightarrow> string field \<Rightarrow> thrown + string" where
  "diffPreview rt diff0 =
     (case diff0 of
        Present d \<Rightarrow> Inr (if length d > 100 then take 100 d @ ''...'' else d)
      | _ \<Rightarrow> Inl (type_error rt ''length''))"

datatype response_body =
    Json "(string \<times> string) list"
  | EventStream "string list" "thrown option"

record response =
  status :: nat
  content_type :: string
  body :: response_body

text \<open>Lines 145 to 162: the \<^verbatim>\<open>catch\<close> of the route handler.\<close>

definition route_catch :: "thrown \<Rightarrow> response" where
  "route_catch t =
     \<lparr>status = (case status_prop t of Some s \<Rightarrow> s | None \<Rightarrow> 500),
      content_type = ''application/json'',
      body = Json [(''error'', ''Failed to generate notes''),
                   (''details'', if is_Error t then message t
                                 else ''Unknown error generating notes'')]\<rparr>"

text \<open>Lines 68 to 72: one relayed event; \<open>stringify\<close> is \<^verbatim>\<open>JSON.stringify\<close>.\<close>

definition sse_frame :: "(json \<Rightarrow> string) \<Rightarrow> json \<Rightarrow> string" where
  "sse_frame stringify event =
     ''data: '' @
     stringify (JObj ((case event of
                         JObj kvs \<Rightarrow> (case map_of kvs ''type'' of
                                        Some t \<Rightarrow> [(''event'', t)] | None \<Rightarrow> [])
                       | _ \<Rightarrow> []) @ [(''data'', event)])) @
     [nl, nl]"

text \<open>
  Lines 7 to 163. \<open>openai\<close> stands for lines 23 to 60: given the user message, the client
  library throws, or yields events and then ends or fails.
\<close>

definition POST ::
  "runtime \<Rightarrow> (json \<Rightarrow> string) \<Rightarrow> (string \<Rightarrow> thrown + json list \<times> thrown option)
     \<Rightarrow> request_json \<Rightarrow> response" where
  "POST rt stringify openai req =
     (case req of
        JsonRejects t \<Rightarrow> route_catch t
      | JsonNull \<Rightarrow> route_catch (type_error rt ''id'')
      | JsonBody id0 description0 diff0 \<Rightarrow>
          (case diffPreview rt diff0 of
             Inl t \<Rightarrow> route_catch t
           | Inr preview \<Rightarrow>
               if is_nullish id0 \<or> is_nullish description0 \<or> is_nullish diff0 then
                 \<lparr>status = 400, content_type = ''application/json'',
                  body = Json [(''error'', ''Missing required fields'')]\<rparr>
               else
                 (case openai (''Description: '' @ (case description0 of Present s \<Rightarrow> s | _ \<Rightarrow> [])
                               @ [nl] @ ''Diff: '' @ (case diff0 of Present s \<Rightarrow> s | _ \<Rightarrow> [])) of
                    Inl t \<Rightarrow> route_catch t
                  | Inr (events, failure) \<Rightarrow>
                      \<lparr>status = 200, content_type = ''text/event-stream'',
                       body = EventStream (map (sse_frame stringify) events) failure\<rparr>)))"

section \<open>A runtime for the examples\<close>

text \<open>
  The closed examples below need a concrete \<^verbatim>\<open>JSON.parse\<close>. \<open>sample_texts\<close> lists the
  texts the examples parse, each with the value \<^verbatim>\<open>JSON.parse\<close> gives it; on any other
  text \<open>sample_runtime\<close> reports a SyntaxError, and the examples rely on that only for
  the text \<^verbatim>\<open>{oops\<close>, which is not JSON.
\<close>

definition in_quotes :: "string \<Rightarrow> string" where
  "in_quotes s =
     [CHR 0x22] @ concat (map (\<lambda>c. if c = CHR 0x22 then [CHR 0x5C, c] else [c]) s) @ [CHR 0x22]"

definition delta_frame :: "string \<Rightarrow> string" where
  \<open>delta_frame d =
     ''data: {"event":"response.output_text.delta","data":{"delta":'' @ in_quotes d @ ''}}''\<close>

definition done_frame :: "string \<Rightarrow> string" where
  \<open>done_frame t =
     ''data: {"event":"response.output_text.done","data":{"text":'' @ in_quotes t @ ''}}''\<close>

definition delta_envelope :: "string \<Rightarrow> json" where
  "delta_envelope d =
     JObj [(''event'', JStr ''response.output_text.delta''), (''data'', JObj [(''delta'', JStr d)])]"

definition done_envelope :: "string \<Rightarrow> json" where
  "done_envelope t =
     JObj [(''event'', JStr ''response.output_text.done''), (''data'', JObj [(''text'', JStr t)])]"

definition notes_text :: string where
  \<open>notes_text = ''{"developerNote":"a","marketingNote":"b"}''\<close>

definition notes_value :: json where
  "notes_value = JObj [(''developerNote'', JStr ''a''), (''marketingNote'', JStr ''b'')]"

definition first_half :: string where
  \<open>first_half = ''{"developerNote":"a",''\<close>

definition second_half :: string where
  \<open>second_half = ''"marketingNote":"b"}''\<close>

definition sample_texts :: "(string \<times> json) list" where
  "sample_texts =
     [(notes_text, notes_value),
      (drop 6 (delta_frame first_half), delta_envelope first_half),
      (drop 6 (delta_frame second_half), delta_envelope second_half),
      (drop 6 (delta_frame notes_text), delta_envelope notes_text),
      (drop 6 (done_frame notes_text), done_envelope notes_text),
      (drop 6 (done_frame ''{oops''), done_envelope ''{oops'')]"

definition sample_runtime :: runtime where
  "sample_runtime =
     \<lparr>JSON_parse = (\<lambda>s. case map_of sample_texts s of
                           Some v \<Rightarrow> Inr v
                         | None \<Rightarrow> Inl ''Unexpected token''),
      TypeError_message = (\<lambda>p. ''Cannot read properties of undefined (reading '' @ p @ '')'')\<rparr>"

section \<open>The statuses of a note entry\<close>

text \<open>
  The page has no status field. An entry is loading when \<open>loading\<close> is set; it is done
  when it is not loading, has no error and holds data; it is in error when it is not
  loading, has an error message and its data is \<^verbatim>\<open>null\<close>.
\<close>

definition is_done :: "note_entry \<Rightarrow> bool" where
  "is_done e = (\<not> loading e \<and> error e = None \<and> data e \<noteq> JNull)"

definition is_error :: "note_entry \<Rightarrow> bool" where
  "is_error e = (\<not> loading e \<and> error e \<noteq> None \<and> data e = JNull)"

text \<open>Every loading entry has no error and holds an object with the two notes.\<close>

definition loading_entries_ok :: "notes_state \<Rightarrow> bool" where
  "loading_entries_ok ns =
     (\<forall>k e. ns k = Some e \<longrightarrow> loading e \<longrightarrow>
        error e = None \<and>
        (\<exists>dn mn. data e = JObj [(''developerNote'', dn), (''marketingNote'', mn)]))"

text \<open>
  The results that end an attempt in the \<^verbatim>\<open>catch\<close> of line 322 without any frame being
  at fault: \<^verbatim>\<open>fetch\<close> rejects, the response is not OK (line 228) or has no body (line
  232), or a read of the stream rejects. \<open>failure_message\<close> is the message the entry gets.
\<close>

definition transport_failure :: "task \<Rightarrow> await_result \<Rightarrow> bool" where
  "transport_failure tk r =
     (case r of
        FetchRejects t \<Rightarrow> phase tk = AwaitFetch
      | FetchResolves code has_body \<Rightarrow>
          phase tk = AwaitFetch \<and> (\<not> response_ok code \<or> \<not> has_body)
      | ReadRejects t \<Rightarrow> phase tk \<noteq> AwaitFetch
      | _ \<Rightarrow> False)"

definition failure_message :: "await_result \<Rightarrow> string" where
  "failure_message r =
     (case r of
        FetchRejects t \<Rightarrow> (if is_Error t then message t else ''Failed to generate notes'')
      | ReadRejects t \<Rightarrow> (if is_Error t then message t else ''Failed to generate notes'')
      | FetchResolves code has_body \<Rightarrow>
          (if \<not> response_ok code then ''HTTP error! status: '' @ decimal code
           else ''No response body'')
      | _ \<Rightarrow> [])"

subsection \<open>Example data\<close>

definition pr42 :: diff_item where
  "pr42 = \<lparr>item_id = ''42'', description = ''Fix caching bug'', diff = ''<patch text>'',
           url = ''https://example.com/pull/42''\<rparr>"

definition prA :: diff_item where
  "prA = \<lparr>item_id = ''A'', description = ''First change'', diff = ''<patch A>'',
          url = ''https://example.com/pull/A''\<rparr>"

definition prB :: diff_item where
  "prB = \<lparr>item_id = ''B'', description = ''Second change'', diff = ''<patch B>'',
          url = ''https://example.com/pull/B''\<rparr>"

text \<open>The React state right after \<^verbatim>\<open>generateNotes\<close> has started for \<open>k\<close> on a fresh
  page.\<close>

definition started :: "string \<Rightarrow> react_state" where
  "started k =
     \<lparr>notes_of = [k \<mapsto> \<lparr>loading = True, error = None, data = empty_notes\<rparr>],
      jsonAccumulator = [k \<mapsto> []]\<rparr>"

definition done_notes :: notes_state where
  "done_notes = [''42'' \<mapsto> \<lparr>loading = False, error = None, data = notes_value\<rparr>]"

definition failed_notes :: notes_state where
  "failed_notes =
     [''42'' \<mapsto> \<lparr>loading = False, error = Some ''HTTP error! status: 500'', data = JNull\<rparr>]"

section \<open>Basic facts\<close>

lemmas sample_defs = sample_runtime_def sample_texts_def delta_frame_def done_frame_def
  in_quotes_def delta_envelope_def done_envelope_def notes_text_def notes_value_def
  first_half_def second_half_def

lemmas js_defs = startsWith_def endsWith_def get_prop_def js_string_def js_or_def
  looks_complete_def fixedJson_def nl_def

lemmas handler_defs = handle_line_def handle_delta_def handle_done_def partial_parse_def
  setNotes_def setJsonAccumulator_def empty_notes_def Let_def

lemmas page_defs = step_def click_generate_def generateAllNotes_def resume_manual_def
  resume_batch_def delay_elapsed_def initial_page_def in_flight_def
  generateNotes_begin_def cached_def is_loading_def truthy_string_def

lemma notes_of_setNotes [simp]: "notes_of (setNotes k e st) = (notes_of st)(k \<mapsto> e)"
  by (simp add: setNotes_def)

lemma jsonAccumulator_setNotes [simp]: "jsonAccumulator (setNotes k e st) = jsonAccumulator st"
  by (simp add: setNotes_def)

lemma notes_of_setJsonAccumulator [simp]: "notes_of (setJsonAccumulator k s st) = notes_of st"
  by (simp add: setJsonAccumulator_def)

lemma jsonAccumulator_setJsonAccumulator [simp]:
  "jsonAccumulator (setJsonAccumulator k s st) = (jsonAccumulator st)(k \<mapsto> s)"
  by (simp add: setJsonAccumulator_def)

lemma notes_of_catch_error:
  "notes_of (catch_error k t st) =
     (notes_of st)(k \<mapsto> \<lparr>loading = False,
        error = Some (if is_Error t then message t else ''Failed to generate notes''),
        data = JNull\<rparr>)"
  by (simp add: catch_error_def)

lemma run_snoc:
  "run rt (as @ [a]) p = (case run rt as p of None \<Rightarrow> None | Some p' \<Rightarrow> step rt a p')"
  by (induction as arbitrary: p) (auto split: option.splits)

subsection \<open>What each handler can do to the notes\<close>

lemma partial_parse_notes:
  "notes_of (partial_parse rt diffId u st) = notes_of st \<or>
   (\<exists>dn mn. notes_of (partial_parse rt diffId u st) =
      (notes_of st)(diffId \<mapsto> \<lparr>loading = True, error = None,
         data = JObj [(''developerNote'', dn), (''marketingNote'', mn)]\<rparr>))"
  by (auto simp: partial_parse_def split: sum.splits)

lemma partial_parse_jsonAccumulator [simp]:
  "jsonAccumulator (partial_parse rt diffId u st) = jsonAccumulator st"
  by (auto simp: partial_parse_def split: sum.splits)

lemma handle_delta_notes:
  "notes_of (handle_delta rt acc0 diffId ev st) = notes_of st \<or>
   (\<exists>dn mn. notes_of (handle_delta rt acc0 diffId ev st) =
      (notes_of st)(diffId \<mapsto> \<lparr>loading = True, error = None,
         data = JObj [(''developerNote'', dn), (''marketingNote'', mn)]\<rparr>))"
proof -
  have pp: "\<And>u s.
    notes_of (partial_parse rt diffId u (setJsonAccumulator diffId s st)) = notes_of st \<or>
    (\<exists>dn mn. notes_of (partial_parse rt diffId u (setJsonAccumulator diffId s st)) =
       (notes_of st)(diffId \<mapsto> \<lparr>loading = True, error = None,
          data = JObj [(''developerNote'', dn), (''marketingNote'', mn)]\<rparr>))"
    using partial_parse_notes[of rt diffId _ "setJsonAccumulator diffId _ st"] by simp
  show ?thesis
    unfolding handle_delta_def Let_def
    by (simp split: sum.splits) (use pp in blast)
qed

lemma handle_done_notes:
  "notes_of (handle_done rt diffId ev st) = notes_of st \<or>
   (\<exists>d payload v. get_prop rt (Some ev) ''data'' = Inr d \<and>
      get_prop rt d ''text'' = Inr payload \<and>
      JSON_parse rt (js_string payload) = Inr v \<and>
      notes_of (handle_done rt diffId ev st) =
        (notes_of st)(diffId \<mapsto> \<lparr>loading = False, error = None, data = v\<rparr>))"
  by (auto simp: handle_done_def split: sum.splits)

text \<open>A line that leaves an entry done either found it so or is a done event whose text
  parses to the entry's data.\<close>

lemma handle_line_done_entry:
  assumes "handle_line rt acc0 diffId line st = Inr st'"
    and "notes_of st' k = Some e" and "is_done e"
  shows "notes_of st k = Some e \<or>
         (k = diffId \<and> (\<exists>payload. done_event_text rt line = Some payload \<and>
                                    JSON_parse rt payload = Inr (data e)))"
proof (cases "startsWith line ''data: ''")
  case False
  with assms show ?thesis by (simp add: handle_line_def)
next
  case True
  from assms(1) True obtain eventData ev where
    p: "JSON_parse rt (drop 6 line) = Inr eventData" and
    g: "get_prop rt (Some eventData) ''event'' = Inr ev" and
    st': "st' = (let st1 = (if ev = Some (JStr ''response.output_text.delta'')
                             then handle_delta rt acc0 diffId eventData st else st)
                 in (if ev = Some (JStr ''response.output_text.done'')
                     then handle_done rt diffId eventData st1 else st1))"
    by (auto simp: handle_line_def Let_def split: sum.splits)
  show ?thesis
  proof (cases "ev = Some (JStr ''response.output_text.done'')")
    case isdone: True
    then have st'2: "st' = handle_done rt diffId eventData st" using st' by simp
    from handle_done_notes[of rt diffId eventData st] show ?thesis
    proof
      assume "notes_of (handle_done rt diffId eventData st) = notes_of st"
      with st'2 assms(2) show ?thesis by simp
    next
      assume "\<exists>d payload v. get_prop rt (Some eventData) ''data'' = Inr d \<and>
         get_prop rt d ''text'' = Inr payload \<and> JSON_parse rt (js_string payload) = Inr v \<and>
         notes_of (handle_done rt diffId eventData st) =
           (notes_of st)(diffId \<mapsto> \<lparr>loading = False, error = None, data = v\<rparr>)"
      then obtain d payload v where
        d: "get_prop rt (Some eventData) ''data'' = Inr d" and
        t: "get_prop rt d ''text'' = Inr payload" and
        v: "JSON_parse rt (js_string payload) = Inr v" and
        n: "notes_of (handle_done rt diffId eventData st) =
           (notes_of st)(diffId \<mapsto> \<lparr>loading = False, error = None, data = v\<rparr>)"
        by blast
      have dt: "done_event_text rt line = Some (js_string payload)"
        using True p g isdone d t by (simp add: done_event_text_def)
      show ?thesis
      proof (cases "k = diffId")
        case True
        with n st'2 assms(2) have "data e = v" by auto
        with dt v True show ?thesis by auto
      next
        case False
        with n st'2 assms(2) show ?thesis by simp
      qed
    qed
  next
    case notdone: False
    show ?thesis
    proof (cases "ev = Some (JStr ''response.output_text.delta'')")
      case True
      with notdone st' have st'2: "st' = handle_delta rt acc0 diffId eventData st" by simp
      from handle_delta_notes[of rt acc0 diffId eventData st] st'2 assms(2,3)
      show ?thesis by (auto simp: is_done_def split: if_splits)
    next
      case False
      with notdone st' assms(2) show ?thesis by simp
    qed
  qed
qed

lemma process_lines_done_entry:
  assumes "process_lines rt acc0 diffId lines st = (r, st')"
    and "notes_of st' k = Some e" and "is_done e"
  shows "notes_of st k = Some e \<or>
         (k = diffId \<and> (\<exists>line \<in> set lines. \<exists>payload. done_event_text rt line = Some payload \<and>
                                JSON_parse rt payload = Inr (data e)))"
  using assms
proof (induction lines arbitrary: st)
  case Nil
  then show ?case by simp
next
  case (Cons line rest)
  show ?case
  proof (cases "handle_line rt acc0 diffId line st")
    case (Inl t)
    with Cons.prems show ?thesis by simp
  next
    case (Inr st1)
    with Cons.prems have "process_lines rt acc0 diffId rest st1 = (r, st')" by simp
    from Cons.IH[OF this Cons.prems(2,3)]
    show ?thesis
    proof
      assume "notes_of st1 k = Some e"
      from handle_line_done_entry[OF Inr this Cons.prems(3)] show ?thesis by auto
    next
      assume "k = diffId \<and> (\<exists>line\<in>set rest. \<exists>payload. done_event_text rt line = Some payload \<and>
                                JSON_parse rt payload = Inr (data e))"
      then show ?thesis by auto
    qed
  qed
qed

subsection \<open>Loading entries, step by step\<close>

lemma loading_entries_ok_empty: "loading_entries_ok Map.empty"
  by (simp add: loading_entries_ok_def)

lemma loading_entries_ok_upd:
  assumes "loading_entries_ok ns"
    and "loading e \<Longrightarrow> error e = None \<and>
           (\<exists>dn mn. data e = JObj [(''developerNote'', dn), (''marketingNote'', mn)])"
  shows "loading_entries_ok (ns(k \<mapsto> e))"
  using assms by (auto simp: loading_entries_ok_def)

lemma handle_delta_ok:
  "loading_entries_ok (notes_of st) \<Longrightarrow>
   loading_entries_ok (notes_of (handle_delta rt acc0 k ev st))"
  using handle_delta_notes[of rt acc0 k ev st]
  by (auto intro!: loading_entries_ok_upd)

lemma handle_done_ok:
  "loading_entries_ok (notes_of st) \<Longrightarrow> loading_entries_ok (notes_of (handle_done rt k ev st))"
  using handle_done_notes[of rt k ev st]
  by (auto intro!: loading_entries_ok_upd)

lemma handle_line_ok:
  "handle_line rt acc0 k line st = Inr st' \<Longrightarrow> loading_entries_ok (notes_of st)
     \<Longrightarrow> loading_entries_ok (notes_of st')"
  by (auto simp: handle_line_def Let_def handle_delta_ok handle_done_ok
      split: if_splits sum.splits)

lemma process_lines_ok:
  "process_lines rt acc0 k lines st = (x, st') \<Longrightarrow> loading_entries_ok (notes_of st)
     \<Longrightarrow> loading_entries_ok (notes_of st')"
proof (induction lines arbitrary: st)
  case Nil
  then show ?case by simp
next
  case (Cons line rest)
  then show ?case
    by (cases "handle_line rt acc0 k line st") (auto dest: handle_line_ok)
qed

lemma catch_error_ok:
  "loading_entries_ok (notes_of st) \<Longrightarrow> loading_entries_ok (notes_of (catch_error k t st))"
  by (auto simp: notes_of_catch_error intro!: loading_entries_ok_upd)

lemma resume_ok:
  assumes "resume rt tk r st = Some (tk', st')" and "loading_entries_ok (notes_of st)"
  shows "loading_entries_ok (notes_of st')"
proof (cases "phase tk")
  case AwaitFetch
  with assms show ?thesis
    by (cases r) (auto simp: resume_def catch_error_ok split: if_splits)
next
  case (AwaitRead partialData)
  show ?thesis
  proof (cases r)
    case (ReadChunk chunk)
    obtain x st1 where pl: "process_lines rt (task_acc tk) (task_id tk)
         (butlast (split_frames [] (partialData @ chunk))) st = (x, st1)"
      by (cases "process_lines rt (task_acc tk) (task_id tk)
         (butlast (split_frames [] (partialData @ chunk))) st") auto
    from process_lines_ok[OF pl assms(2)] have "loading_entries_ok (notes_of st1)" .
    with assms(1) AwaitRead ReadChunk pl show ?thesis
      by (cases x) (auto simp: resume_def Let_def catch_error_ok)
  qed (use assms AwaitRead in \<open>auto simp: resume_def catch_error_ok\<close>)
qed

lemma generateNotes_begin_ok:
  "generateNotes_begin notes0 acc0 k st = Some (tk, st') \<Longrightarrow> loading_entries_ok (notes_of st)
     \<Longrightarrow> loading_entries_ok (notes_of st')"
  by (auto simp: generateNotes_begin_def empty_notes_def intro!: loading_entries_ok_upd
      split: if_splits)

lemma batch_loop_ok:
  "batch_loop notes0 acc0 ds st = (w, st') \<Longrightarrow> loading_entries_ok (notes_of st)
     \<Longrightarrow> loading_entries_ok (notes_of st')"
proof (induction ds)
  case Nil
  then show ?case by simp
next
  case (Cons d ds)
  then show ?case
    by (auto split: if_splits option.splits dest: generateNotes_begin_ok)
qed

lemma loadNotesFromCache_ok:
  "loading_entries_ok (notes_of st) \<Longrightarrow>
   loading_entries_ok (notes_of (loadNotesFromCache now sto st))"
  by (cases sto)
     (auto simp: loadNotesFromCache_def loadedNotes_def loading_entries_ok_def
       split: option.splits if_splits)

lemma step_ok:
  assumes "step rt a p = Some p'" and "loading_entries_ok (notes_of (react p))"
  shows "loading_entries_ok (notes_of (react p'))"
proof (cases a)
  case (LoadCache now)
  with assms show ?thesis by (auto simp: step_def loadNotesFromCache_ok)
next
  case (SaveCache now w)
  with assms show ?thesis by (auto simp: step_def)
next
  case (FetchedPage n ds)
  with assms show ?thesis by (auto simp: step_def)
next
  case (ClickGenerate d)
  with assms show ?thesis
    by (auto simp: step_def click_generate_def split: if_splits option.splits
        dest: generateNotes_begin_ok)
next
  case ClickGenerateAll
  obtain w st' where bl: "batch_loop (notes_of (react p)) (jsonAccumulator (react p)) (diffs p)
      (react p) = (w, st')"
    by (cases "batch_loop (notes_of (react p)) (jsonAccumulator (react p)) (diffs p) (react p)")
  from batch_loop_ok[OF bl assms(2)] have "loading_entries_ok (notes_of st')" .
  with assms ClickGenerateAll bl show ?thesis
    by (auto simp: step_def generateAllNotes_def split: if_splits option.splits)
next
  case (Resume i r)
  with assms resume_ok[of rt "manual p ! i" r "react p"] show ?thesis
    by (auto simp: step_def resume_manual_def split: if_splits option.splits)
next
  case (BatchResume r)
  with assms show ?thesis
    by (auto simp: step_def resume_batch_def split: if_splits option.splits batch_wait.splits)
       (blast intro: resume_ok)+
next
  case DelayElapsed
  with assms show ?thesis
    by (auto simp: step_def delay_elapsed_def
        split: if_splits option.splits batch_wait.splits prod.splits)
       (blast intro: batch_loop_ok)+
qed

lemma run_ok:
  "run rt as p = Some p' \<Longrightarrow> loading_entries_ok (notes_of (react p))
     \<Longrightarrow> loading_entries_ok (notes_of (react p'))"
proof (induction as arbitrary: p)
  case Nil
  then show ?case by simp
next
  case (Cons a as)
  then show ?case
    by (cases "step rt a p") (auto dest: step_ok)
qed

subsection \<open>Splitting into frames\<close>

lemma split_frames_nonempty [simp]: "split_frames cur s \<noteq> []"
  by (induction cur s rule: split_frames.induct) auto

lemma split_frames_single: "split_frames cur s = [p] \<Longrightarrow> p = cur @ s"
  by (induction cur s rule: split_frames.induct) (auto split: if_splits)

text \<open>The piece being read only prefixes the first piece of the result.\<close>

lemma split_frames_cur:
  "split_frames cur s = (cur @ hd (split_frames [] s)) # tl (split_frames [] s)"
proof (induction s arbitrary: cur)
  case Nil
  then show ?case by simp
next
  case (Cons a s)
  show ?case
  proof (cases s)
    case Nil
    then show ?thesis by simp
  next
    case (Cons b rest)
    show ?thesis
    proof (cases "a = nl \<and> b = nl")
      case True
      with Cons show ?thesis by simp
    next
      case False
      with Cons Cons.IH[of "cur @ [a]"] Cons.IH[of "[a]"] show ?thesis by auto
    qed
  qed
qed

text \<open>Splitting a text in two steps: split the front, then split its last piece together
  with the rest.\<close>

lemma split_frames_append:
  "split_frames [] (a @ b) =
     butlast (split_frames [] a) @ split_frames [] (last (split_frames [] a) @ b)"
proof (induction a rule: length_induct)
  case (1 a)
  show ?case
  proof (cases a)
    case Nil
    then show ?thesis by simp
  next
    case (Cons x a')
    note a = this
    show ?thesis
    proof (cases a')
      case Nil
      with a show ?thesis by simp
    next
      case (Cons y r)
      note a' = this
      show ?thesis
      proof (cases "x = nl \<and> y = nl")
        case True
        have "length r < length a" using a a' by simp
        with 1 have ih: "split_frames [] (r @ b) =
           butlast (split_frames [] r) @ split_frames [] (last (split_frames [] r) @ b)"
          by blast
        from True a a' ih show ?thesis by simp
      next
        case False
        have "length a' < length a" using a by simp
        with 1 have ih: "split_frames [] (a' @ b) =
           butlast (split_frames [] a') @ split_frames [] (last (split_frames [] a') @ b)"
          by blast
        have lhs: "split_frames [] (a @ b) = split_frames [x] (a' @ b)"
          using False a a' by auto
        have rhs: "split_frames [] a = split_frames [x] a'"
          using False a a' by auto
        obtain s0 S' where S: "split_frames [] a' = s0 # S'"
          by (cases "split_frames [] a'") auto
        show ?thesis
        proof (cases S')
          case Nil
          with S have "s0 = a'" using split_frames_single[of "[]" a' s0] by simp
          with S Nil have "split_frames [] a' = [a']" by simp
          then have r1: "split_frames [x] a' = [x # a']"
            using split_frames_cur[of "[x]" a'] by simp
          show ?thesis
            unfolding rhs r1 using a by simp
        next
          case (Cons s1 S'')
          have r1: "split_frames [x] a' = (x # s0) # S'"
            using split_frames_cur[of "[x]" a'] S by simp
          have l1: "split_frames [x] (a' @ b) =
             (x # s0) # butlast S' @ split_frames [] (last S' @ b)"
            using split_frames_cur[of "[x]" "a' @ b"] ih S Cons by simp
          show ?thesis
            unfolding lhs rhs r1 l1 using Cons by simp
        qed
      qed
    qed
  qed
qed

lemma split_frames_first_piece:
  "hd (split_frames [] (y # r)) = [] \<or> hd (hd (split_frames [] (y # r))) = y"
proof (cases r)
  case Nil
  then show ?thesis by simp
next
  case (Cons z r')
  then show ?thesis
    using split_frames_cur[of "[y]" "z # r'"] by auto
qed

text \<open>No piece holds a separator.\<close>

lemma split_frames_pieces:
  "p \<in> set (split_frames [] s) \<Longrightarrow> split_frames [] p = [p]"
proof (induction s arbitrary: p rule: length_induct)
  case (1 s)
  show ?case
  proof (cases s)
    case Nil
    with 1(2) show ?thesis by simp
  next
    case (Cons x s')
    note s = this
    show ?thesis
    proof (cases s')
      case Nil
      with s 1(2) show ?thesis by simp
    next
      case (Cons y r)
      note s' = this
      show ?thesis
      proof (cases "x = nl \<and> y = nl")
        case True
        with s s' 1(2) have "p = [] \<or> p \<in> set (split_frames [] r)" by simp
        moreover have "length r < length s" using s s' by simp
        ultimately show ?thesis using 1(1) by auto
      next
        case False
        have len: "length s' < length s" using s by simp
        obtain s0 S' where S: "split_frames [] s' = s0 # S'"
          by (cases "split_frames [] s'") auto
        have eq: "split_frames [] s = (x # s0) # S'"
          using False s s' split_frames_cur[of "[x]" s'] S by auto
        from 1(2) eq have "p = x # s0 \<or> p \<in> set S'" by simp
        then show ?thesis
        proof
          assume "p \<in> set S'"
          with S have "p \<in> set (split_frames [] s')" by simp
          with 1(1) len show ?thesis by blast
        next
          assume p: "p = x # s0"
          have "s0 \<in> set (split_frames [] s')" using S by simp
          with 1(1) len have one: "split_frames [] s0 = [s0]" by blast
          show ?thesis
          proof (cases s0)
            case Nil
            with p show ?thesis by simp
          next
            case (Cons c s0')
            with S s' split_frames_first_piece[of y r] have "c = y" by simp
            with False Cons p one split_frames_cur[of "[x]" s0] show ?thesis by auto
          qed
        qed
      qed
    qed
  qed
qed

lemma split_frames_last:
  "split_frames [] (last (split_frames [] s)) = [last (split_frames [] s)]"
  by (rule split_frames_pieces[of _ s]) simp

lemma process_lines_append:
  "process_lines rt acc0 k (ls @ ms) st =
     (case process_lines rt acc0 k ls st of
        (Some t, st') \<Rightarrow> (Some t, st')
      | (None, st') \<Rightarrow> process_lines rt acc0 k ms st')"
  by (induction ls arbitrary: st) (auto split: sum.splits)

lemma resume_chunk:
  assumes "phase tk = AwaitRead p"
  shows "resume rt tk (ReadChunk c) st =
     (case process_lines rt (task_acc tk) (task_id tk) (butlast (split_frames [] (p @ c))) st of
        (Some t, st') \<Rightarrow> Some (None, catch_error (task_id tk) t st')
      | (None, st') \<Rightarrow>
          Some (Some (tk\<lparr>phase := AwaitRead (last (split_frames [] (p @ c)))\<rparr>), st'))"
  using assms by (simp add: resume_def Let_def)

subsection \<open>The example frames\<close>

lemma split_first_half:
  "split_frames [] (delta_frame first_half @ [nl, nl]) = [delta_frame first_half, []]"
  by (simp add: sample_defs nl_def)

lemma split_second_half:
  "split_frames [] (delta_frame second_half @ [nl, nl]) = [delta_frame second_half, []]"
  by (simp add: sample_defs nl_def)

lemma split_delta_done:
  "split_frames [] (delta_frame notes_text @ [nl, nl] @ done_frame notes_text @ [nl, nl])
   = [delta_frame notes_text, done_frame notes_text, []]"
  by (simp add: sample_defs nl_def)

lemma resume_delta_done:
  "resume sample_runtime \<lparr>task_id = ''42'', task_acc = Map.empty, phase = AwaitRead []\<rparr>
      (ReadChunk (delta_frame notes_text @ [nl, nl] @ done_frame notes_text @ [nl, nl]))
      (started ''42'')
    = Some (Some \<lparr>task_id = ''42'', task_acc = Map.empty, phase = AwaitRead []\<rparr>,
            \<lparr>notes_of = [''42'' \<mapsto> \<lparr>loading = False, error = None, data = notes_value\<rparr>],
             jsonAccumulator = [''42'' \<mapsto> notes_text]\<rparr>)"
  unfolding resume_def
  apply (simp add: split_delta_done del: split_frames.simps)
  apply (simp add: handler_defs started_def sample_defs js_defs)
  done

lemma done_event_text_notes_text:
  "done_event_text sample_runtime (done_frame notes_text) = Some notes_text"
  by (simp add: done_event_text_def sample_defs js_defs)

lemma JSON_parse_notes_text: "JSON_parse sample_runtime notes_text = Inr notes_value"
  by (simp add: sample_defs)

section \<open>The claims\<close>

text \<open>
  C1. The claim: after the first \<open>n\<close> delta events the accumulator of the diff id is the
  concatenation of the first \<open>n\<close> fragments, and a partial parse works on that text.
  The page does not do this. Line 259 reads \<^verbatim>\<open>jsonAccumulator\<close> of the render that
  created the running \<^verbatim>\<open>generateNotes\<close>, which no update of the live state changes, so
  each delta is appended to the same old value and the accumulator holds the last
  fragment only. Here a first attempt for diff 42 receives two fragments whose
  concatenation is the complete object: the accumulator ends as the second fragment, no
  partial parse is tried and the entry still shows the empty notes, although the
  concatenation looks complete and parses.
\<close>

theorem accumulator_holds_last_delta_only:
  "run sample_runtime
     [FetchedPage 1 [pr42], ClickGenerate pr42, Resume 0 (FetchResolves 200 True),
      Resume 0 (ReadChunk (delta_frame first_half @ [nl, nl])),
      Resume 0 (ReadChunk (delta_frame second_half @ [nl, nl]))]
     (initial_page NoItem)
   = Some \<lparr>react = \<lparr>notes_of = [''42'' \<mapsto> \<lparr>loading = True, error = None, data = empty_notes\<rparr>],
                      jsonAccumulator = [''42'' \<mapsto> second_half]\<rparr>,
           processingAll = False, diffs = [pr42], localStorage = NoItem,
           manual = [\<lparr>task_id = ''42'', task_acc = Map.empty, phase = AwaitRead []\<rparr>],
           batch = None\<rparr> \<and>
   second_half \<noteq> first_half @ second_half \<and>
   looks_complete (first_half @ second_half) \<and>
   JSON_parse sample_runtime (fixedJson (first_half @ second_half)) = Inr notes_value"
proof -
  let ?tk = "\<lparr>task_id = ''42'', task_acc = Map.empty, phase = AwaitRead []\<rparr>"
  let ?p3 = "\<lparr>react = started ''42'', processingAll = False, diffs = [pr42],
           localStorage = NoItem, manual = [?tk], batch = None\<rparr>"
  let ?p4 = "\<lparr>react = \<lparr>notes_of = [''42'' \<mapsto> \<lparr>loading = True, error = None, data = empty_notes\<rparr>],
                      jsonAccumulator = [''42'' \<mapsto> first_half]\<rparr>,
           processingAll = False, diffs = [pr42], localStorage = NoItem,
           manual = [?tk], batch = None\<rparr>"
  let ?p5 = "\<lparr>react = \<lparr>notes_of = [''42'' \<mapsto> \<lparr>loading = True, error = None, data = empty_notes\<rparr>],
                      jsonAccumulator = [''42'' \<mapsto> second_half]\<rparr>,
           processingAll = False, diffs = [pr42], localStorage = NoItem,
           manual = [?tk], batch = None\<rparr>"
  have s3: "run sample_runtime [FetchedPage 1 [pr42], ClickGenerate pr42,
             Resume 0 (FetchResolves 200 True)] (initial_page NoItem) = Some ?p3"
    by (simp add: page_defs pr42_def started_def setNotes_def setJsonAccumulator_def
        resume_def response_ok_def)
  have s4: "step sample_runtime (Resume 0 (ReadChunk (delta_frame first_half @ [nl, nl]))) ?p3
              = Some ?p4"
    apply (simp add: page_defs resume_def split_first_half started_def del: split_frames.simps)
    apply (simp add: handler_defs sample_defs js_defs)
    done
  have s5: "step sample_runtime (Resume 0 (ReadChunk (delta_frame second_half @ [nl, nl]))) ?p4
              = Some ?p5"
    apply (simp add: page_defs resume_def split_second_half del: split_frames.simps)
    apply (simp add: handler_defs sample_defs js_defs)
    done
  have r: "run sample_runtime
     ([FetchedPage 1 [pr42], ClickGenerate pr42, Resume 0 (FetchResolves 200 True)] @
      [Resume 0 (ReadChunk (delta_frame first_half @ [nl, nl]))] @
      [Resume 0 (ReadChunk (delta_frame second_half @ [nl, nl]))])
     (initial_page NoItem) = Some ?p5"
    by (simp only: run_snoc append_assoc[symmetric] s3 s4 s5 option.case)
  have c: "second_half \<noteq> first_half @ second_half"
    by (simp add: sample_defs)
  have l: "looks_complete (first_half @ second_half)"
    by (simp add: sample_defs js_defs)
  have j: "JSON_parse sample_runtime (fixedJson (first_half @ second_half)) = Inr notes_value"
    by (simp add: sample_defs js_defs)
  from r c l j show ?thesis by simp
qed

text \<open>
  C2. No speculative parse makes an entry done. Whenever an attempt resumes from an
  \<^verbatim>\<open>await\<close> and an entry is done afterwards (not loading, no error, data not \<^verbatim>\<open>null\<close>),
  either the entry was exactly that before, or it is the entry of the attempt's diff id,
  the attempt was reading the stream, and one of the complete lines of the chunk is a
  \<^verbatim>\<open>response.output_text.done\<close> event whose text parses to the entry's data.
\<close>

theorem done_state_comes_from_done_event:
  assumes "resume rt tk r st = Some (tk', st')"
    and "notes_of st' k = Some e" and "is_done e"
  shows "notes_of st k = Some e \<or>
         (k = task_id tk \<and>
          (\<exists>partialData chunk. phase tk = AwaitRead partialData \<and> r = ReadChunk chunk \<and>
             (\<exists>line \<in> set (butlast (split_frames [] (partialData @ chunk))).
                \<exists>payload. done_event_text rt line = Some payload \<and>
                           JSON_parse rt payload = Inr (data e))))"
proof (cases "phase tk")
  case AwaitFetch
  with assms show ?thesis
    by (cases r) (auto simp: resume_def is_done_def notes_of_catch_error split: if_splits)
next
  case (AwaitRead partialData)
  show ?thesis
  proof (cases r)
    case (ReadChunk chunk)
    obtain x st1 where pl: "process_lines rt (task_acc tk) (task_id tk)
         (butlast (split_frames [] (partialData @ chunk))) st = (x, st1)"
      by (cases "process_lines rt (task_acc tk) (task_id tk)
         (butlast (split_frames [] (partialData @ chunk))) st") auto
    have "notes_of st1 k = Some e"
    proof (cases x)
      case None
      with assms(1,2) AwaitRead ReadChunk pl show ?thesis
        by (simp add: resume_def Let_def)
    next
      case (Some t)
      with assms(1) AwaitRead ReadChunk pl have "st' = catch_error (task_id tk) t st1"
        by (simp add: resume_def Let_def)
      with assms(2,3) show ?thesis
        by (auto simp: is_done_def notes_of_catch_error split: if_splits)
    qed
    from process_lines_done_entry[OF pl this assms(3)] AwaitRead ReadChunk
    show ?thesis by auto
  next
    case (ReadRejects t)
    with assms AwaitRead show ?thesis
      by (auto simp: resume_def is_done_def notes_of_catch_error split: if_splits)
  qed (use assms AwaitRead in \<open>auto simp: resume_def\<close>)
qed

text \<open>An attempt for diff 42 reads a chunk with a delta event carrying the whole object and
  then the done event: the partial parse shows the notes and keeps the entry loading, the
  done event makes it done.\<close>

theorem done_state_comes_from_done_event_witness:
  "resume sample_runtime \<lparr>task_id = ''42'', task_acc = Map.empty, phase = AwaitRead []\<rparr>
      (ReadChunk (delta_frame notes_text @ [nl, nl] @ done_frame notes_text @ [nl, nl]))
      (started ''42'')
    = Some (Some \<lparr>task_id = ''42'', task_acc = Map.empty, phase = AwaitRead []\<rparr>,
            \<lparr>notes_of = [''42'' \<mapsto> \<lparr>loading = False, error = None, data = notes_value\<rparr>],
             jsonAccumulator = [''42'' \<mapsto> notes_text]\<rparr>) \<and>
   is_done \<lparr>loading = False, error = None, data = notes_value\<rparr> \<and>
   notes_of (started ''42'') ''42'' \<noteq> Some \<lparr>loading = False, error = None, data = notes_value\<rparr> \<and>
   done_frame notes_text \<in>
     set (butlast (split_frames []
            ([] @ delta_frame notes_text @ [nl, nl] @ done_frame notes_text @ [nl, nl]))) \<and>
   done_event_text sample_runtime (done_frame notes_text) = Some notes_text \<and>
   JSON_parse sample_runtime notes_text = Inr notes_value"
proof -
  have d: "is_done \<lparr>loading = False, error = None, data = notes_value\<rparr>"
    by (simp add: is_done_def notes_value_def)
  have n: "notes_of \<lparr>notes_of = [''42'' \<mapsto> \<lparr>loading = False, error = None, data = notes_value\<rparr>],
             jsonAccumulator = [''42'' \<mapsto> notes_text]\<rparr> ''42''
           = Some \<lparr>loading = False, error = None, data = notes_value\<rparr>"
    by simp
  have s: "notes_of (started ''42'') ''42'' \<noteq> Some \<lparr>loading = False, error = None, data = notes_value\<rparr>"
    by (simp add: started_def)
  have m: "done_frame notes_text \<in>
     set (butlast (split_frames []
            ([] @ delta_frame notes_text @ [nl, nl] @ done_frame notes_text @ [nl, nl])))"
    by (simp add: sample_defs nl_def)
  from done_state_comes_from_done_event[OF resume_delta_done n d] resume_delta_done d s m
    done_event_text_notes_text JSON_parse_notes_text
  show ?thesis by blast
qed

text \<open>
  C3. The claim: a request body that lacks any of \<^verbatim>\<open>id\<close>, \<^verbatim>\<open>description\<close> or \<^verbatim>\<open>diff\<close> is
  answered with status 400. The route does not do this when \<^verbatim>\<open>diff\<close> is the missing field:
  line 13 reads \<^verbatim>\<open>diff.length\<close> for the log before the check of line 16, the TypeError
  goes to the \<^verbatim>\<open>catch\<close> of line 145, and the answer is status 500 with the error
  \<^verbatim>\<open>Failed to generate notes\<close>.
\<close>

theorem missing_diff_gives_500:
  "POST rt stringify openai (JsonBody (Present ''42'') (Present ''Fix caching bug'') Undefined)
   = \<lparr>status = 500, content_type = ''application/json'',
      body = Json [(''error'', ''Failed to generate notes''),
                   (''details'', TypeError_message rt ''length'')]\<rparr>"
  by (simp add: POST_def diffPreview_def route_catch_def type_error_def new_Error_def)

text \<open>
  C4, as amended. Invoking generation for a diff id whose entry, in the render that makes
  the call, is in error resets the live entry to loading with no error and the two empty
  notes, and empties the accumulator, before the first \<^verbatim>\<open>await\<close>. When that entry is done
  with truthy data and no error, the call returns at line 200 and resets nothing.
\<close>

theorem regenerate_resets_error_entry_only:
  "(notes0 diffId = Some e \<and> is_error e \<longrightarrow>
      (\<exists>tk st'. generateNotes_begin notes0 acc0 diffId st = Some (tk, st') \<and>
         task_id tk = diffId \<and> phase tk = AwaitFetch \<and>
         notes_of st' diffId = Some \<lparr>loading = True, error = None, data = empty_notes\<rparr> \<and>
         jsonAccumulator st' diffId = Some [])) \<and>
   (notes0 diffId = Some e \<and> is_done e \<and> truthy (data e) \<longrightarrow>
      generateNotes_begin notes0 acc0 diffId st = None)"
  by (auto simp: generateNotes_begin_def cached_def is_error_def is_done_def truthy_string_def)

text \<open>The claim as stated fails for a done entry: generation invoked again for diff 42,
  whose entry is done, returns without touching the entry.\<close>

theorem done_entry_is_not_regenerated:
  "done_notes ''42'' = Some \<lparr>loading = False, error = None, data = notes_value\<rparr> \<and>
   is_done \<lparr>loading = False, error = None, data = notes_value\<rparr> \<and>
   generateNotes_begin done_notes Map.empty ''42''
     \<lparr>notes_of = done_notes, jsonAccumulator = Map.empty\<rparr> = None \<and>
   step sample_runtime (ClickGenerate pr42)
     \<lparr>react = \<lparr>notes_of = done_notes, jsonAccumulator = Map.empty\<rparr>,
      processingAll = False, diffs = [pr42], localStorage = NoItem, manual = [], batch = None\<rparr>
   = Some \<lparr>react = \<lparr>notes_of = done_notes, jsonAccumulator = Map.empty\<rparr>,
      processingAll = False, diffs = [pr42], localStorage = NoItem, manual = [], batch = None\<rparr>"
  by (simp add: page_defs done_notes_def notes_value_def is_done_def pr42_def)

theorem regenerate_resets_error_entry_only_witness:
  "failed_notes ''42'' =
     Some \<lparr>loading = False, error = Some ''HTTP error! status: 500'', data = JNull\<rparr> \<and>
   is_error \<lparr>loading = False, error = Some ''HTTP error! status: 500'', data = JNull\<rparr> \<and>
   generateNotes_begin failed_notes Map.empty ''42''
     \<lparr>notes_of = failed_notes, jsonAccumulator = Map.empty\<rparr>
   = Some (\<lparr>task_id = ''42'', task_acc = Map.empty, phase = AwaitFetch\<rparr>, started ''42'') \<and>
   done_notes ''42'' = Some \<lparr>loading = False, error = None, data = notes_value\<rparr> \<and>
   is_done \<lparr>loading = False, error = None, data = notes_value\<rparr> \<and>
   truthy notes_value \<and>
   generateNotes_begin done_notes Map.empty ''42''
     \<lparr>notes_of = done_notes, jsonAccumulator = Map.empty\<rparr> = None"
proof -
  have f: "failed_notes ''42'' =
     Some \<lparr>loading = False, error = Some ''HTTP error! status: 500'', data = JNull\<rparr>"
    by (simp add: failed_notes_def)
  have fe: "is_error \<lparr>loading = False, error = Some ''HTTP error! status: 500'', data = JNull\<rparr>"
    by (simp add: is_error_def)
  have d: "done_notes ''42'' = Some \<lparr>loading = False, error = None, data = notes_value\<rparr>"
    by (simp add: done_notes_def)
  have de: "is_done \<lparr>loading = False, error = None, data = notes_value\<rparr>"
    by (simp add: is_done_def notes_value_def)
  have t: "truthy notes_value"
    by (simp add: notes_value_def)
  have b: "generateNotes_begin failed_notes Map.empty ''42''
     \<lparr>notes_of = failed_notes, jsonAccumulator = Map.empty\<rparr>
   = Some (\<lparr>task_id = ''42'', task_acc = Map.empty, phase = AwaitFetch\<rparr>, started ''42'')"
    by (simp add: generateNotes_begin_def cached_def failed_notes_def truthy_string_def
        started_def setNotes_def setJsonAccumulator_def)
  from regenerate_resets_error_entry_only[of done_notes "''42''"
      "\<lparr>loading = False, error = None, data = notes_value\<rparr>" Map.empty
      "\<lparr>notes_of = done_notes, jsonAccumulator = Map.empty\<rparr>"] d de t
  have "generateNotes_begin done_notes Map.empty ''42''
     \<lparr>notes_of = done_notes, jsonAccumulator = Map.empty\<rparr> = None"
    by simp
  with f fe d de t b show ?thesis by simp
qed

text \<open>
  C5. A \<^verbatim>\<open>response.output_text.done\<close> event whose text does not parse as JSON changes
  nothing: the line is handled without an exception reaching line 322, and the state
  after it (every note entry and every accumulator) is the state before it. So the entry
  of the diff id is exactly what it was, and does not become done.
\<close>

theorem done_event_unparsable_text_leaves_state:
  assumes "done_event_text rt line = Some payload"
    and "JSON_parse rt payload = Inl m"
  shows "handle_line rt acc0 diffId line st = Inr st"
  using assms
  by (auto simp: done_event_text_def handle_line_def handle_done_def Let_def
      split: if_splits sum.splits option.splits)

theorem done_event_unparsable_text_witness:
  "done_event_text sample_runtime (done_frame ''{oops'') = Some ''{oops'' \<and>
   JSON_parse sample_runtime ''{oops'' = Inl ''Unexpected token'' \<and>
   handle_line sample_runtime Map.empty ''42'' (done_frame ''{oops'')
     \<lparr>notes_of = [''42'' \<mapsto> \<lparr>loading = True, error = None, data = empty_notes\<rparr>],
      jsonAccumulator = [''42'' \<mapsto> []]\<rparr>
   = Inr \<lparr>notes_of = [''42'' \<mapsto> \<lparr>loading = True, error = None, data = empty_notes\<rparr>],
          jsonAccumulator = [''42'' \<mapsto> []]\<rparr>"
proof -
  have h1: "done_event_text sample_runtime (done_frame ''{oops'') = Some ''{oops''"
    by (simp add: done_event_text_def sample_defs js_defs)
  have h2: "JSON_parse sample_runtime ''{oops'' = Inl ''Unexpected token''"
    by (simp add: sample_defs)
  from done_event_unparsable_text_leaves_state[OF h1 h2] h1 h2 show ?thesis
    by simp
qed

text \<open>
  C6. An attempt that meets a transport failure (\<^verbatim>\<open>fetch\<close> rejects, the response is not
  OK, the response has no body, or a read of the stream rejects) returns there, and leaves
  the entry of its diff id in error: not loading, with the message of the failure, and
  with data \<^verbatim>\<open>null\<close>.
\<close>

theorem transport_failure_sets_error:
  assumes "transport_failure tk r"
  shows "\<exists>st'. resume rt tk r st = Some (None, st') \<and>
           notes_of st' (task_id tk) =
             Some \<lparr>loading = False, error = Some (failure_message r), data = JNull\<rparr> \<and>
           is_error \<lparr>loading = False, error = Some (failure_message r), data = JNull\<rparr>"
  using assms
  by (cases r; cases "phase tk")
     (auto simp: transport_failure_def failure_message_def resume_def is_error_def new_Error_def
        notes_of_catch_error)

theorem transport_failure_sets_error_witness:
  "transport_failure \<lparr>task_id = ''42'', task_acc = Map.empty, phase = AwaitFetch\<rparr>
      (FetchResolves 500 True) \<and>
   resume sample_runtime \<lparr>task_id = ''42'', task_acc = Map.empty, phase = AwaitFetch\<rparr>
      (FetchResolves 500 True) (started ''42'')
   = Some (None,
       \<lparr>notes_of = [''42'' \<mapsto> \<lparr>loading = False, error = Some ''HTTP error! status: 500'',
                                 data = JNull\<rparr>],
        jsonAccumulator = [''42'' \<mapsto> []]\<rparr>)"
proof -
  have h: "transport_failure \<lparr>task_id = ''42'', task_acc = Map.empty, phase = AwaitFetch\<rparr>
      (FetchResolves 500 True)"
    by (simp add: transport_failure_def response_ok_def)
  from transport_failure_sets_error[OF h, of sample_runtime "started ''42''"] h
  show ?thesis
    by (simp add: resume_def response_ok_def catch_error_def setNotes_def new_Error_def
        started_def decimal.simps)
qed

text \<open>
  C7. The claim: a batch run skips every id whose entry is done or loading at that point
  and never has two generations in flight for one id. The page does not do this. The
  loop of \<^verbatim>\<open>generateAllNotes\<close> reads \<^verbatim>\<open>notes\<close> of the render that created it, so it sees
  no entry written after the batch began. Here the batch starts on the items A and B
  with no notes; while A is being fetched the user starts B from its button, which the
  live state enables; A's attempt fails; after the delay the loop reaches B, whose live
  entry is loading, and starts a second generation for B.
\<close>

theorem batch_starts_second_generation_for_loading_id:
  "map_option (\<lambda>p. (in_flight p, is_loading (notes_of (react p)) ''B''))
     (run rt [FetchedPage 1 [prA, prB], ClickGenerateAll, ClickGenerate prB,
              BatchResume (FetchRejects (new_Error ''Failed to fetch''))]
        (initial_page NoItem))
   = Some ([''B''], True) \<and>
   map_option in_flight
     (run rt [FetchedPage 1 [prA, prB], ClickGenerateAll, ClickGenerate prB,
              BatchResume (FetchRejects (new_Error ''Failed to fetch'')), DelayElapsed]
        (initial_page NoItem))
   = Some [''B'', ''B'']"
  by (simp add: page_defs prA_def prB_def resume_def catch_error_def new_Error_def
      setNotes_def setJsonAccumulator_def)

text \<open>
  C8. Saving and reloading the cache. An entry that is done with no error and holds a
  notes object is written by a save that succeeds at time \<open>now1\<close>; a load at time \<open>now2\<close>
  gives it back as a done entry with no error and the same data when less than 24 hours
  have passed, and gives no entry for the id otherwise. In any stored cache, an entry
  whose age is 24 hours or more is left out by the load.
\<close>

theorem cache_round_trip:
  assumes "notes0 k = Some e" and "\<not> loading e" and "error e = None" and "data e = JObj kvs"
  shows "(now2 - now1 < 24 * 60 * 60 * 1000 \<longrightarrow>
            notes_of (loadNotesFromCache now2 (saveNotesToCache now1 True notes0 sto) st) k
              = Some \<lparr>loading = False, error = None, data = data e\<rparr>) \<and>
         (now2 - now1 \<ge> 24 * 60 * 60 * 1000 \<longrightarrow>
            notes_of (loadNotesFromCache now2 (saveNotesToCache now1 True notes0 sto) st) k
              = None) \<and>
         (\<forall>c k' ce. c k' = Some ce \<and> now2 - timestamp ce \<ge> 24 * 60 * 60 * 1000 \<longrightarrow>
            notes_of (loadNotesFromCache now2 (Stored c) st) k' = None)"
  using assms
  by (simp add: loadNotesFromCache_def saveNotesToCache_def cacheData_def loadedNotes_def
      CACHE_EXPIRATION_def truthy_string_def)

theorem cache_round_trip_witness:
  "done_notes ''42'' = Some \<lparr>loading = False, error = None, data = notes_value\<rparr> \<and>
   notes_of (loadNotesFromCache 86400999 (saveNotesToCache 1000 True done_notes NoItem)
               \<lparr>notes_of = Map.empty, jsonAccumulator = Map.empty\<rparr>) ''42''
     = Some \<lparr>loading = False, error = None, data = notes_value\<rparr> \<and>
   notes_of (loadNotesFromCache 86401000 (saveNotesToCache 1000 True done_notes NoItem)
               \<lparr>notes_of = Map.empty, jsonAccumulator = Map.empty\<rparr>) ''42''
     = None"
proof -
  have d: "done_notes ''42'' = Some \<lparr>loading = False, error = None, data = notes_value\<rparr>"
    by (simp add: done_notes_def)
  have o: "data \<lparr>loading = False, error = None, data = notes_value\<rparr>
             = JObj [(''developerNote'', JStr ''a''), (''marketingNote'', JStr ''b'')]"
    by (simp add: notes_value_def)
  have a: "notes_of (loadNotesFromCache 86400999 (saveNotesToCache 1000 True done_notes NoItem)
               \<lparr>notes_of = Map.empty, jsonAccumulator = Map.empty\<rparr>) ''42''
     = Some \<lparr>loading = False, error = None, data = notes_value\<rparr>"
    using cache_round_trip[where ?notes0.0 = done_notes and k = "''42''"
        and e = "\<lparr>loading = False, error = None, data = notes_value\<rparr>"
        and ?now2.0 = 86400999 and ?now1.0 = 1000 and sto = NoItem
        and st = "\<lparr>notes_of = Map.empty, jsonAccumulator = Map.empty\<rparr>"] d o
    by simp
  have b: "notes_of (loadNotesFromCache 86401000 (saveNotesToCache 1000 True done_notes NoItem)
               \<lparr>notes_of = Map.empty, jsonAccumulator = Map.empty\<rparr>) ''42''
     = None"
    using cache_round_trip[where ?notes0.0 = done_notes and k = "''42''"
        and e = "\<lparr>loading = False, error = None, data = notes_value\<rparr>"
        and ?now2.0 = 86401000 and ?now1.0 = 1000 and sto = NoItem
        and st = "\<lparr>notes_of = Map.empty, jsonAccumulator = Map.empty\<rparr>"] d o
    by simp
  from a b d show ?thesis by simp
qed

text \<open>
  C9, as amended. A save that succeeds writes exactly the entries that are not loading,
  have no error message and hold truthy data, and stamps every one of them with the time
  of this save, whatever the stored cache held before: the save does not read it.
\<close>

theorem save_persists_done_entries_stamped_now:
  "saveNotesToCache now True notes0 sto = Stored (cacheData now notes0) \<and>
   (cacheData now notes0 k = Some ce \<longleftrightarrow>
      (\<exists>e. notes0 k = Some e \<and> \<not> loading e \<and> \<not> truthy_string (error e) \<and> truthy (data e) \<and>
           ce = \<lparr>timestamp = now, cache_entry.data = data e\<rparr>))"
  by (auto simp: saveNotesToCache_def cacheData_def split: option.splits)

text \<open>The claim as stated fails: the entry of diff 42, stored at time 1000, is done and is
  saved again at time 2000; its stored timestamp becomes 2000.\<close>

theorem save_restamps_stored_entry:
  "saveNotesToCache 2000 True done_notes
      (Stored [''42'' \<mapsto> \<lparr>timestamp = 1000, cache_entry.data = notes_value\<rparr>])
   = Stored (cacheData 2000 done_notes) \<and>
   cacheData 2000 done_notes ''42''
   = Some \<lparr>timestamp = 2000, cache_entry.data = notes_value\<rparr>"
  by (simp add: saveNotesToCache_def cacheData_def done_notes_def notes_value_def
      truthy_string_def)

theorem save_persists_done_entries_stamped_now_witness:
  "saveNotesToCache 5 True (done_notes ++ notes_of (started ''7'')) Unreadable
     = Stored (cacheData 5 (done_notes ++ notes_of (started ''7''))) \<and>
   cacheData 5 (done_notes ++ notes_of (started ''7'')) ''42''
     = Some \<lparr>timestamp = 5, cache_entry.data = notes_value\<rparr> \<and>
   cacheData 5 (done_notes ++ notes_of (started ''7'')) ''7'' = None"
  using save_persists_done_entries_stamped_now[of 5 "done_notes ++ notes_of (started ''7'')"
      Unreadable "''42''" "\<lparr>timestamp = 5, cache_entry.data = notes_value\<rparr>"]
  by (simp add: cacheData_def done_notes_def started_def notes_value_def truthy_string_def
      map_add_def)

text \<open>
  C10. In every state the page can reach, whatever is loaded, clicked, fetched or
  streamed, an entry that is loading has no error and its data is not \<^verbatim>\<open>null\<close>: it is an
  object with the fields \<^verbatim>\<open>developerNote\<close> and \<^verbatim>\<open>marketingNote\<close>.
\<close>

theorem loading_entry_has_no_error_and_has_data:
  assumes "run rt as (initial_page sto) = Some p"
    and "notes_of (react p) k = Some e" and "loading e"
  shows "error e = None \<and> data e \<noteq> JNull \<and>
         (\<exists>dn mn. data e = JObj [(''developerNote'', dn), (''marketingNote'', mn)])"
proof -
  have "loading_entries_ok (notes_of (react (initial_page sto)))"
    by (simp add: initial_page_def loading_entries_ok_empty)
  from run_ok[OF assms(1) this] assms(2,3)
  have "error e = None \<and>
        (\<exists>dn mn. data e = JObj [(''developerNote'', dn), (''marketingNote'', mn)])"
    unfolding loading_entries_ok_def by blast
  then show ?thesis by auto
qed

theorem loading_entry_has_no_error_and_has_data_witness:
  "run sample_runtime [FetchedPage 1 [pr42], ClickGenerate pr42] (initial_page NoItem) =
     Some \<lparr>react = started ''42'', processingAll = False, diffs = [pr42],
           localStorage = NoItem,
           manual = [\<lparr>task_id = ''42'', task_acc = Map.empty, phase = AwaitFetch\<rparr>],
           batch = None\<rparr> \<and>
   notes_of (started ''42'') ''42'' = Some \<lparr>loading = True, error = None, data = empty_notes\<rparr> \<and>
   empty_notes \<noteq> JNull"
proof -
  have r: "run sample_runtime [FetchedPage 1 [pr42], ClickGenerate pr42] (initial_page NoItem) =
     Some \<lparr>react = started ''42'', processingAll = False, diffs = [pr42],
           localStorage = NoItem,
           manual = [\<lparr>task_id = ''42'', task_acc = Map.empty, phase = AwaitFetch\<rparr>],
           batch = None\<rparr>"
    by (simp add: page_defs pr42_def started_def setNotes_def setJsonAccumulator_def)
  have n: "notes_of (react \<lparr>react = started ''42'', processingAll = False, diffs = [pr42],
           localStorage = NoItem,
           manual = [\<lparr>task_id = ''42'', task_acc = Map.empty, phase = AwaitFetch\<rparr>],
           batch = None\<rparr>) ''42'' = Some \<lparr>loading = True, error = None, data = empty_notes\<rparr>"
    by (simp add: started_def)
  from loading_entry_has_no_error_and_has_data[OF r n] r n show ?thesis
    by simp
qed

section \<open>Further properties\<close>

text \<open>
  How the stream is cut into chunks does not matter. An attempt that is reading the
  stream, and holds over a text without a separator, ends in the same state (and with the
  same text held over, or returned for the same reason) whether it is given the chunks
  one after another or their concatenation as one chunk.
\<close>

theorem chunking_does_not_matter:
  assumes "phase tk = AwaitRead p" and "split_frames [] p = [p]"
  shows "read_stream rt tk chunks st = resume rt tk (ReadChunk (concat chunks)) st"
  using assms
proof (induction chunks arbitrary: tk p st)
  case Nil
  then show ?case
    by (cases tk) (simp add: resume_chunk[of _ p])
next
  case (Cons c cs)
  let ?L = "split_frames [] (p @ c)"
  let ?U = "split_frames [] (last ?L @ concat cs)"
  have ap: "split_frames [] (p @ concat (c # cs)) = butlast ?L @ ?U"
    using split_frames_append[of "p @ c" "concat cs"] by simp
  have bl: "butlast (butlast ?L @ ?U) = butlast ?L @ butlast ?U"
    by (simp add: butlast_append)
  have la: "last (butlast ?L @ ?U) = last ?U"
    by simp
  obtain x st1 where pl: "process_lines rt (task_acc tk) (task_id tk) (butlast ?L) st = (x, st1)"
    by (cases "process_lines rt (task_acc tk) (task_id tk) (butlast ?L) st") auto
  show ?case
  proof (cases x)
    case (Some t)
    with pl Cons.prems(1) show ?thesis
      by (simp add: resume_chunk[of _ p] ap bl process_lines_append del: concat.simps)
  next
    case None
    let ?tk' = "tk\<lparr>phase := AwaitRead (last ?L)\<rparr>"
    have ph: "phase ?tk' = AwaitRead (last ?L)" by simp
    have one: "split_frames [] (last ?L) = [last ?L]" by (rule split_frames_last)
    have "read_stream rt tk (c # cs) st = read_stream rt ?tk' cs st1"
      using pl None Cons.prems(1) by (simp add: resume_chunk[of _ p])
    also have "\<dots> = resume rt ?tk' (ReadChunk (concat cs)) st1"
      by (rule Cons.IH[OF ph one])
    also have "\<dots> = resume rt tk (ReadChunk (concat (c # cs))) st"
      using pl None Cons.prems(1)
      by (simp add: resume_chunk[of _ p] resume_chunk[OF ph] ap bl la process_lines_append
          del: concat.simps split: prod.splits option.splits)
    finally show ?thesis .
  qed
qed

theorem chunking_does_not_matter_witness:
  "phase \<lparr>task_id = ''42'', task_acc = Map.empty, phase = AwaitRead []\<rparr> = AwaitRead [] \<and>
   split_frames [] [] = [[]] \<and>
   read_stream sample_runtime \<lparr>task_id = ''42'', task_acc = Map.empty, phase = AwaitRead []\<rparr>
     [delta_frame notes_text @ [nl], [nl] @ done_frame notes_text @ [nl, nl]] (started ''42'')
   = Some (Some \<lparr>task_id = ''42'', task_acc = Map.empty, phase = AwaitRead []\<rparr>,
           \<lparr>notes_of = [''42'' \<mapsto> \<lparr>loading = False, error = None, data = notes_value\<rparr>],
            jsonAccumulator = [''42'' \<mapsto> notes_text]\<rparr>)"
proof -
  have c: "concat [delta_frame notes_text @ [nl], [nl] @ done_frame notes_text @ [nl, nl]]
             = delta_frame notes_text @ [nl, nl] @ done_frame notes_text @ [nl, nl]"
    by simp
  have ph: "phase \<lparr>task_id = ''42'', task_acc = Map.empty, phase = AwaitRead []\<rparr> = AwaitRead []"
    by simp
  have sp: "split_frames [] [] = [[]]" by simp
  from chunking_does_not_matter[OF ph sp, of sample_runtime
      "[delta_frame notes_text @ [nl], [nl] @ done_frame notes_text @ [nl, nl]]" "started ''42''"]
  show ?thesis
    unfolding c resume_delta_done using ph sp by simp
qed

text \<open>
  What a delta event writes to the accumulator of its diff id: the value the render of
  the running \<^verbatim>\<open>generateNotes\<close> had for the id (or the empty string), with the fragment
  appended, whatever the live accumulator holds.
\<close>

theorem delta_event_appends_to_render_value:
  assumes "get_prop rt (Some eventData) ''data'' = Inr d"
    and "get_prop rt d ''delta'' = Inr delta"
  shows "jsonAccumulator (handle_delta rt acc0 diffId eventData st) =
           (jsonAccumulator st)
             (diffId \<mapsto> (case acc0 diffId of None \<Rightarrow> [] | Some s \<Rightarrow> s) @ js_string delta)"
  using assms by (simp add: handle_delta_def Let_def)

theorem delta_event_appends_to_render_value_witness:
  "get_prop sample_runtime (Some (delta_envelope second_half)) ''data''
     = Inr (Some (JObj [(''delta'', JStr second_half)])) \<and>
   get_prop sample_runtime (Some (JObj [(''delta'', JStr second_half)])) ''delta''
     = Inr (Some (JStr second_half)) \<and>
   jsonAccumulator (handle_delta sample_runtime Map.empty ''42'' (delta_envelope second_half)
      \<lparr>notes_of = Map.empty, jsonAccumulator = [''42'' \<mapsto> first_half]\<rparr>) ''42''
     = Some second_half"
proof -
  have a: "get_prop sample_runtime (Some (delta_envelope second_half)) ''data''
     = Inr (Some (JObj [(''delta'', JStr second_half)]))"
    by (simp add: get_prop_def delta_envelope_def)
  have b: "get_prop sample_runtime (Some (JObj [(''delta'', JStr second_half)])) ''delta''
     = Inr (Some (JStr second_half))"
    by (simp add: get_prop_def)
  from delta_event_appends_to_render_value[OF a b, of Map.empty "''42''"
      "\<lparr>notes_of = Map.empty, jsonAccumulator = [''42'' \<mapsto> first_half]\<rparr>"] a b
  show ?thesis by (simp add: js_string_def)
qed

text \<open>
  When the endpoint answers 400 with \<^verbatim>\<open>Missing required fields\<close>: exactly when \<^verbatim>\<open>diff\<close> is
  present and \<^verbatim>\<open>id\<close> or \<^verbatim>\<open>description\<close> is missing.
\<close>

theorem endpoint_answers_400_exactly_when:
  "(status (POST rt stringify openai (JsonBody i d f)) = 400 \<and>
    body (POST rt stringify openai (JsonBody i d f)) = Json [(''error'', ''Missing required fields'')])
   = (\<not> is_nullish f \<and> (is_nullish i \<or> is_nullish d))"
  by (cases f; cases i; cases d)
     (auto simp: POST_def diffPreview_def route_catch_def type_error_def new_Error_def
        is_nullish_def split: sum.splits prod.splits)

theorem endpoint_answers_400_exactly_when_witness:
  "POST sample_runtime (\<lambda>v. []) (\<lambda>s. Inr ([], None))
     (JsonBody Undefined (Present ''Fix caching bug'') (Present ''<patch text>''))
   = \<lparr>status = 400, content_type = ''application/json'',
      body = Json [(''error'', ''Missing required fields'')]\<rparr> \<and>
   is_nullish (Undefined :: string field) \<and>
   status (POST sample_runtime (\<lambda>v. []) (\<lambda>s. Inr ([], None))
     (JsonBody (Present ''42'') (Present ''Fix caching bug'') (Present ''<patch text>''))) = 200"
  using endpoint_answers_400_exactly_when[of sample_runtime "\<lambda>v. []" "\<lambda>s. Inr ([], None)"
      Undefined "Present ''Fix caching bug''" "Present ''<patch text>''"]
  by (simp add: POST_def diffPreview_def is_nullish_def)

text \<open>
  Where the batch loop stops. When it reaches an \<^verbatim>\<open>await\<close>, it has skipped a front of the
  list whose items are all done with no error or loading in the notes of the batch's
  render, and has started generation for the next item, which is neither; the items after
  it are left for later. When it runs off the end, it has skipped every item and changed
  nothing.
\<close>

theorem batch_loop_takes_first_unskipped_item:
  "(batch_loop notes0 acc0 ds st = (Some (w, rest), st') \<longrightarrow>
      (\<exists>skipped d. ds = skipped @ d # rest \<and>
         (\<forall>x \<in> set skipped. cached notes0 (item_id x) \<or> is_loading notes0 (item_id x)) \<and>
         \<not> cached notes0 (item_id d) \<and> \<not> is_loading notes0 (item_id d) \<and>
         (\<exists>tk. w = Generating tk \<and> task_id tk = item_id d \<and> phase tk = AwaitFetch) \<and>
         notes_of st' (item_id d) = Some \<lparr>loading = True, error = None, data = empty_notes\<rparr>)) \<and>
   (batch_loop notes0 acc0 ds st = (None, st') \<longrightarrow>
      st' = st \<and>
      (\<forall>x \<in> set ds. cached notes0 (item_id x) \<or> is_loading notes0 (item_id x)))"
proof (induction ds)
  case Nil
  then show ?case by simp
next
  case (Cons d ds)
  show ?case
  proof (cases "cached notes0 (item_id d) \<or> is_loading notes0 (item_id d)")
    case True
    then have eq: "batch_loop notes0 acc0 (d # ds) st = batch_loop notes0 acc0 ds st"
      by auto
    show ?thesis
    proof (intro conjI impI)
      assume "batch_loop notes0 acc0 (d # ds) st = (Some (w, rest), st')"
      with eq Cons.IH obtain skipped x where
        "ds = skipped @ x # rest"
        "\<forall>y \<in> set skipped. cached notes0 (item_id y) \<or> is_loading notes0 (item_id y)"
        "\<not> cached notes0 (item_id x)" "\<not> is_loading notes0 (item_id x)"
        "\<exists>tk. w = Generating tk \<and> task_id tk = item_id x \<and> phase tk = AwaitFetch"
        "notes_of st' (item_id x) = Some \<lparr>loading = True, error = None, data = empty_notes\<rparr>"
        by auto
      with True show "\<exists>skipped da. d # ds = skipped @ da # rest \<and>
         (\<forall>x \<in> set skipped. cached notes0 (item_id x) \<or> is_loading notes0 (item_id x)) \<and>
         \<not> cached notes0 (item_id da) \<and> \<not> is_loading notes0 (item_id da) \<and>
         (\<exists>tk. w = Generating tk \<and> task_id tk = item_id da \<and> phase tk = AwaitFetch) \<and>
         notes_of st' (item_id da) = Some \<lparr>loading = True, error = None, data = empty_notes\<rparr>"
        by (intro exI[of _ "d # skipped"] exI[of _ x]) auto
    next
      assume "batch_loop notes0 acc0 (d # ds) st = (None, st')"
      with eq Cons.IH True show "st' = st" by auto
    next
      assume "batch_loop notes0 acc0 (d # ds) st = (None, st')"
      with eq Cons.IH True
      show "\<forall>x \<in> set (d # ds). cached notes0 (item_id x) \<or> is_loading notes0 (item_id x)"
        by auto
    qed
  next
    case False
    then show ?thesis
      by (auto simp: generateNotes_begin_def intro!: exI[of _ "[]"])
  qed
qed

theorem batch_loop_takes_first_unskipped_item_witness:
  "cached done_notes (item_id pr42) \<and>
   \<not> cached done_notes (item_id prA) \<and> \<not> is_loading done_notes (item_id prA) \<and>
   batch_loop done_notes Map.empty [pr42, prA, prB]
     \<lparr>notes_of = done_notes, jsonAccumulator = Map.empty\<rparr>
   = (Some (Generating \<lparr>task_id = ''A'', task_acc = Map.empty, phase = AwaitFetch\<rparr>, [prB]),
      \<lparr>notes_of = done_notes(''A'' \<mapsto> \<lparr>loading = True, error = None, data = empty_notes\<rparr>),
       jsonAccumulator = [''A'' \<mapsto> []]\<rparr>)"
  using batch_loop_takes_first_unskipped_item[of done_notes Map.empty "[pr42, prA, prB]"
      "\<lparr>notes_of = done_notes, jsonAccumulator = Map.empty\<rparr>"
      "Generating \<lparr>task_id = ''A'', task_acc = Map.empty, phase = AwaitFetch\<rparr>" "[prB]"
      "\<lparr>notes_of = done_notes(''A'' \<mapsto> \<lparr>loading = True, error = None, data = empty_notes\<rparr>),
        jsonAccumulator = [''A'' \<mapsto> []]\<rparr>"]
  by (simp add: page_defs done_notes_def notes_value_def pr42_def prA_def prB_def
       setNotes_def setJsonAccumulator_def)

text \<open>
  A failed item does not stop the batch. When the generation the batch waits for meets a
  transport failure, the batch goes on to its delay, and the delay can elapse: the loop
  continues with the items it has not reached.
\<close>

theorem failed_item_does_not_stop_the_batch:
  assumes "batch p = Some b" and "batch_wait b = Generating tk" and "transport_failure tk r"
  shows "\<exists>st'. resume_batch rt r p =
           Some (p\<lparr>react := st', batch := Some (b\<lparr>batch_wait := Delay\<rparr>)\<rparr>) \<and>
           delay_elapsed (p\<lparr>react := st', batch := Some (b\<lparr>batch_wait := Delay\<rparr>)\<rparr>) \<noteq> None"
  using assms
  by (cases r; cases "phase tk")
     (auto simp: resume_batch_def delay_elapsed_def transport_failure_def resume_def
        split: prod.splits option.splits)

theorem failed_item_does_not_stop_the_batch_witness:
  "map_option (\<lambda>p. (in_flight p, processingAll p, is_error (the (notes_of (react p) ''A''))))
     (run sample_runtime
        [FetchedPage 1 [prA, prB], ClickGenerateAll, BatchResume (FetchResolves 404 True),
         DelayElapsed] (initial_page NoItem))
   = Some ([''B''], True, True)"
proof -
  let ?tk = "\<lparr>task_id = ''A'', task_acc = Map.empty, phase = AwaitFetch\<rparr>"
  let ?b = "\<lparr>batch_notes = Map.empty, batch_acc = Map.empty, batch_rest = [prB],
             batch_wait = Generating ?tk\<rparr>"
  let ?p = "\<lparr>react = started ''A'', processingAll = True, diffs = [prA, prB],
             localStorage = NoItem, manual = [], batch = Some ?b\<rparr>"
  have f: "transport_failure ?tk (FetchResolves 404 True)"
    by (simp add: transport_failure_def response_ok_def)
  from failed_item_does_not_stop_the_batch[of ?p ?b ?tk "FetchResolves 404 True" sample_runtime] f
  have "\<exists>st'. resume_batch sample_runtime (FetchResolves 404 True) ?p =
           Some (?p\<lparr>react := st', batch := Some (?b\<lparr>batch_wait := Delay\<rparr>)\<rparr>)"
    by auto
  then show ?thesis
    by (simp add: page_defs prA_def prB_def resume_def response_ok_def catch_error_def
        new_Error_def setNotes_def setJsonAccumulator_def is_error_def)
qed

text \<open>
  A stream that ends without a done event. When the stream reports its end, the attempt
  returns and changes nothing: an entry that no done event completed stays loading.
\<close>

theorem stream_end_without_done_leaves_entry:
  assumes "phase tk = AwaitRead partialData"
  shows "resume rt tk ReadDone st = Some (None, st)"
  using assms by (simp add: resume_def)

theorem stream_end_without_done_witness:
  "map_option (\<lambda>p. (notes_of (react p) ''42'', in_flight p))
     (run sample_runtime
        [FetchedPage 1 [pr42], ClickGenerate pr42, Resume 0 (FetchResolves 200 True),
         Resume 0 ReadDone] (initial_page NoItem))
   = Some (Some \<lparr>loading = True, error = None, data = empty_notes\<rparr>, [])"
proof -
  have "resume sample_runtime \<lparr>task_id = ''42'', task_acc = Map.empty, phase = AwaitRead []\<rparr>
          ReadDone (started ''42'') = Some (None, started ''42'')"
    by (rule stream_end_without_done_leaves_entry) simp
  then show ?thesis
    by (simp add: page_defs pr42_def resume_def response_ok_def started_def
        setNotes_def setJsonAccumulator_def)
qed

end
